theory Spec2Isabelle
  imports Main "HOL-Library.Word"
begin

section \<open>Kernel constants and C integer conversions\<close>

text \<open>
  The driver reports failures as negated Linux error numbers. The numbers are the ones of
  the kernel's generic errno headers; the driver only compares them with each other.
\<close>

definition ENOENT :: int where "ENOENT = 2"
definition EINTR :: int where "EINTR = 4"
definition EIO :: int where "EIO = 5"
definition EAGAIN :: int where "EAGAIN = 11"
definition ENOMEM :: int where "ENOMEM = 12"
definition EFAULT :: int where "EFAULT = 14"
definition ENODEV :: int where "ENODEV = 19"
definition EPIPE :: int where "EPIPE = 32"
definition ECONNRESET :: int where "ECONNRESET = 104"
definition ESHUTDOWN :: int where "ESHUTDOWN = 108"
definition ERESTARTSYS :: int where "ERESTARTSYS = 512"

lemmas errno_defs = ENOENT_def EINTR_def EIO_def EAGAIN_def ENOMEM_def EFAULT_def
  ENODEV_def EPIPE_def ECONNRESET_def ESHUTDOWN_def ERESTARTSYS_def

definition WRITES_IN_FLIGHT :: nat where "WRITES_IN_FLIGHT = 8"

text \<open>
  \<open>size_t\<close> is a 64-bit unsigned integer: values are naturals below \<open>2 ^ 64\<close>, and
  subtraction and addition wrap around. \<open>PAGE_SIZE\<close> is a macro of the kernel
  configuration; \<open>MAX_TRANSFER\<close> takes it as a parameter.
\<close>

definition size_t_sub :: "nat \<Rightarrow> nat \<Rightarrow> nat" where
  "size_t_sub a b = (a + 2 ^ 64 - b) mod 2 ^ 64"

definition size_t_add :: "nat \<Rightarrow> nat \<Rightarrow> nat" where
  "size_t_add a b = (a + b) mod 2 ^ 64"

definition MAX_TRANSFER :: "nat \<Rightarrow> nat" where
  "MAX_TRANSFER page_size = size_t_sub page_size 512"

text \<open>
  The conversions of a \<open>size_t\<close> to the 64-bit \<open>ssize_t\<close> (\<open>return writesize\<close> in
  \<open>ugci_write\<close>) and to the 32-bit \<open>int\<close> (\<open>rv = chunk\<close> in \<open>ugci_read\<close>).
\<close>

definition ssize_t_of_size_t :: "nat \<Rightarrow> int" where
  "ssize_t_of_size_t n =
     (let m = n mod 2 ^ 64 in if m < 2 ^ 63 then int m else int m - 2 ^ 64)"

definition int_of_size_t :: "nat \<Rightarrow> int" where
  "int_of_size_t n =
     (let m = n mod 2 ^ 32 in if m < 2 ^ 31 then int m else int m - 2 ^ 32)"

section \<open>The device structure\<close>

type_synonym byte = "8 word"

text \<open>
  An outbound transfer request as \<open>ugci_write\<close> fills it in: the staging buffer and its
  length.
\<close>

record urb =
  transfer_buffer :: "byte list"
  transfer_buffer_length :: nat

text \<open>
  \<open>struct usb_ugci\<close>. Pointers that the driver only tests against \<open>NULL\<close> are booleans
  (\<open>interface\<close>, \<open>bulk_in_urb\<close>); the semaphore is its count; the anchor \<open>submitted\<close>
  is the list of anchored write requests, which the USB core holds from submission until it
  gives the request back. \<open>bulk_in_flight\<close> and \<open>bulk_in_submits\<close> are the transport's
  side of \<open>bulk_in_urb\<close>: the requested lengths of its submissions that have not completed
  yet, and the number of times it has been passed to \<open>usb_submit_urb\<close>. \<open>freed\<close> records
  that \<open>ugci_delete\<close> has run. \<open>coherent\<close> holds the staging buffers that
  \<open>usb_alloc_coherent\<close> has handed out for this device and \<open>usb_free_coherent\<close> has not
  taken back. \<open>intfdata\<close> says that the driver data of the interface points to the device
  (\<open>usb_set_intfdata\<close>, \<open>usb_get_intfdata\<close>).
\<close>

record usb_ugci =
  interface :: bool
  limit_sem :: nat
  submitted :: "urb list"
  bulk_in_urb :: bool
  bulk_in_flight :: "nat list"
  bulk_in_submits :: nat
  bulk_in_buffer :: "byte list"
  bulk_in_size :: nat
  bulk_in_filled :: nat
  bulk_in_copied :: nat
  errors :: int
  ongoing_read :: bool
  kref :: nat
  freed :: bool
  coherent :: "byte list list"
  intfdata :: bool

text \<open>
  A call either returns a value or sleeps without being woken in the scenario at hand.
\<close>

datatype result = Returned int | Blocked

section \<open>Completion handlers\<close>

text \<open>
  The handlers log a status that is neither 0 nor one of the three statuses of a cancelled
  request, with \<open>dev_err\<close> on \<open>dev->interface\<close>. The log is not part of the device
  structure and is left out; as \<open>dev_err\<close> reads \<open>dev->interface\<close>, the completion with such
  a status of a request that has outlived \<open>ugci_disconnect\<close> is a fault in the source and
  has no meaning here.
\<close>

text \<open>\<open>ugci_read_bulk_callback\<close>, with \<open>urb->status\<close> and \<open>urb->actual_length\<close>.\<close>

definition ugci_read_bulk_callback :: "usb_ugci \<Rightarrow> int \<Rightarrow> nat \<Rightarrow> usb_ugci" where
  "ugci_read_bulk_callback dev status actual_length =
     (let dev1 = (if status \<noteq> 0 then dev\<lparr>errors := status\<rparr>
                  else dev\<lparr>bulk_in_filled := actual_length\<rparr>)
      in dev1\<lparr>ongoing_read := False\<rparr>)"

text \<open>
  \<open>usb_free_coherent\<close> takes a staging buffer back; a \<open>NULL\<close> buffer is \<open>None\<close>.
\<close>

definition usb_free_coherent :: "byte list list \<Rightarrow> byte list option \<Rightarrow> byte list list" where
  "usb_free_coherent allocated buf =
     (case buf of None \<Rightarrow> allocated | Some b \<Rightarrow> remove1 b allocated)"

text \<open>
  \<open>ugci_write_bulk_callback\<close>, with the request and \<open>urb->status\<close>: it records the status,
  frees the staging buffer of the request and returns the permit with \<open>up\<close>. The core has
  taken the request off the anchor before it calls the handler.
\<close>

definition ugci_write_bulk_callback :: "usb_ugci \<Rightarrow> urb \<Rightarrow> int \<Rightarrow> usb_ugci" where
  "ugci_write_bulk_callback dev u status =
     (let dev1 = (if status \<noteq> 0 then dev\<lparr>errors := status\<rparr> else dev);
          dev2 = dev1\<lparr>coherent := usb_free_coherent (coherent dev1) (Some (transfer_buffer u))\<rparr>
      in dev2\<lparr>limit_sem := limit_sem dev2 + 1\<rparr>)"

section \<open>The transport\<close>

text \<open>
  The USB core is not part of the driver. Its functions are modelled by their contract:
  a request is given back exactly once, with a status, after which it is no longer in
  flight; a completed inbound transfer has written at most the requested number of bytes
  to the start of the buffer; the return value of \<open>usb_submit_urb\<close> and the status of a
  completion are zero or a negated error number, so an event of the transport carries the
  error number \<open>e\<close> and the driver sees \<open>- int e\<close>.
\<close>

definition usb_giveback_in :: "usb_ugci \<Rightarrow> int \<Rightarrow> byte list \<Rightarrow> usb_ugci option" where
  "usb_giveback_in dev status data =
     (case bulk_in_flight dev of
        [] \<Rightarrow> None
      | len # rest \<Rightarrow>
          (let received = take len data;
               dev1 = dev\<lparr>bulk_in_flight := rest,
                          bulk_in_buffer := received @ drop (length received) (bulk_in_buffer dev)\<rparr>
           in Some (ugci_read_bulk_callback dev1 status (length received))))"

definition usb_giveback_out :: "usb_ugci \<Rightarrow> nat \<Rightarrow> int \<Rightarrow> usb_ugci option" where
  "usb_giveback_out dev i status =
     (if i < length (submitted dev)
      then Some (ugci_write_bulk_callback
                   (dev\<lparr>submitted := take i (submitted dev) @ drop (Suc i) (submitted dev)\<rparr>)
                   (submitted dev ! i) status)
      else None)"

section \<open>Reading\<close>

text \<open>\<open>ugci_do_read_io\<close>; \<open>e\<close> is the error number of \<open>usb_submit_urb\<close>, 0 when it accepts.\<close>

definition ugci_do_read_io :: "usb_ugci \<Rightarrow> nat \<Rightarrow> nat \<Rightarrow> int \<times> usb_ugci" where
  "ugci_do_read_io dev count e =
     (let len = min (bulk_in_size dev) count;
          dev1 = dev\<lparr>ongoing_read := True\<rparr>;
          dev2 = dev1\<lparr>bulk_in_filled := 0, bulk_in_copied := 0\<rparr>;
          dev3 = dev2\<lparr>bulk_in_submits := bulk_in_submits dev2 + 1\<rparr>;
          rv = - int e
      in if rv < 0
         then ((if rv = - ENOMEM then rv else - EIO), dev3\<lparr>ongoing_read := False\<rparr>)
         else (rv, dev3\<lparr>bulk_in_flight := bulk_in_flight dev3 @ [len]\<rparr>))"

text \<open>
  \<open>copy_to_user\<close>: the caller's buffer is writable for \<open>writable\<close> bytes. The result is
  what reached the caller and the number of bytes that could not be copied.
\<close>

definition copy_to_user :: "nat \<Rightarrow> byte list \<Rightarrow> byte list \<times> nat" where
  "copy_to_user writable src = (take writable src, length src - writable)"

text \<open>
  What happens while a reader sleeps in \<open>wait_event_interruptible\<close>: a signal, or the
  completion of the inbound transfer with an error number and the received bytes.
\<close>

datatype wait_outcome = Signal | Completion nat "byte list"

fun next_errno :: "nat list \<Rightarrow> nat" where
  "next_errno [] = 0"
| "next_errno (e # es) = e"

text \<open>
  The check of \<open>errors\<close> in \<open>ugci_write\<close>, which runs under \<open>err_lock\<close>: the value that
  \<open>retval\<close> has after it, and the device.
\<close>

definition ugci_write_check :: "usb_ugci \<Rightarrow> int \<times> usb_ugci" where
  "ugci_write_check dev =
     (let retval = errors dev
      in if retval < 0
         then ((if retval = - EPIPE then retval else - EIO), dev\<lparr>errors := 0\<rparr>)
         else (retval, dev))"

text \<open>
  \<open>ugci_read\<close> loads \<open>errors\<close> and, if the value is negative, stores 0, holding \<open>io_mutex\<close>
  and not \<open>err_lock\<close>. What takes \<open>err_lock\<close> and not \<open>io_mutex\<close> can run between the load
  and the store: the check of a writer, and the completion of a write request, given by
  its position on the anchor and its error number.
\<close>

datatype racing = Racing_check | Racing_done nat nat

fun race_with :: "usb_ugci \<Rightarrow> racing list \<Rightarrow> usb_ugci" where
  "race_with dev [] = dev"
| "race_with dev (Racing_check # rs) = race_with (snd (ugci_write_check dev)) rs"
| "race_with dev (Racing_done i e # rs) =
     race_with (case usb_giveback_out dev i (- int e) of None \<Rightarrow> dev | Some dev' \<Rightarrow> dev') rs"

text \<open>
  The part of \<open>ugci_read\<close> that delivers buffered data: \<open>copy_to_user\<close>, the advance of
  \<open>bulk_in_copied\<close>, and the read-ahead whose result is dropped.
\<close>

definition ugci_read_deliver ::
  "usb_ugci \<Rightarrow> nat \<Rightarrow> nat \<Rightarrow> nat \<Rightarrow> result \<times> byte list \<times> usb_ugci" where
  "ugci_read_deliver dev writable count e =
     (let available = size_t_sub (bulk_in_filled dev) (bulk_in_copied dev);
          chunk = min available count;
          (out, not_copied) =
             copy_to_user writable (take chunk (drop (bulk_in_copied dev) (bulk_in_buffer dev)));
          rv = (if not_copied \<noteq> 0 then - EFAULT else int_of_size_t chunk);
          dev1 = dev\<lparr>bulk_in_copied := size_t_add (bulk_in_copied dev) chunk\<rparr>;
          dev2 = (if available < count
                  then snd (ugci_do_read_io dev1 (size_t_sub count chunk) e)
                  else dev1)
      in (Returned rv, out, dev2))"

text \<open>
  The loop of \<open>ugci_read\<close> from the label \<open>retry\<close>, entered with \<open>io_mutex\<close> held.
  \<open>waits\<close> are the outcomes of the sleeps of this call in order, \<open>subs\<close> the error numbers
  of its submissions in order, and \<open>race\<close> is what runs between the load of \<open>errors\<close> and
  the store of 0 when the call reports an error.
\<close>

function ugci_read_retry ::
  "usb_ugci \<Rightarrow> nat \<Rightarrow> nat \<Rightarrow> bool \<Rightarrow> wait_outcome list \<Rightarrow> nat list \<Rightarrow> racing list
     \<Rightarrow> result \<times> byte list \<times> usb_ugci" where
  "ugci_read_retry dev writable count nonblock waits subs race =
     (if ongoing_read dev then
        (if nonblock then (Returned (- EAGAIN), [], dev)
         else (case waits of
                 [] \<Rightarrow> (Blocked, [], dev)
               | Signal # ws \<Rightarrow> (Returned (- ERESTARTSYS), [], dev)
               | Completion e data # ws \<Rightarrow>
                   (case usb_giveback_in dev (- int e) data of
                      None \<Rightarrow> (Blocked, [], dev)
                    | Some dev' \<Rightarrow> ugci_read_retry dev' writable count nonblock ws subs race)))
      else if errors dev < 0 then
        (Returned (if errors dev = - EPIPE then errors dev else - EIO), [],
         (race_with dev race)\<lparr>errors := 0\<rparr>)
      else if bulk_in_filled dev \<noteq> 0 then
        (if size_t_sub (bulk_in_filled dev) (bulk_in_copied dev) = 0 then
           (case ugci_do_read_io dev count (next_errno subs) of
              (rv, dev') \<Rightarrow>
                if rv < 0 then (Returned rv, [], dev')
                else ugci_read_retry dev' writable count nonblock waits (tl subs) race)
         else ugci_read_deliver dev writable count (next_errno subs))
      else
        (case ugci_do_read_io dev count (next_errno subs) of
           (rv, dev') \<Rightarrow>
             if rv < 0 then (Returned rv, [], dev')
             else ugci_read_retry dev' writable count nonblock waits (tl subs) race))"
  by pat_completeness auto
termination
proof (relation "measure (\<lambda>(dev, writable, count, nonblock, waits, subs, race).
                   2 * length waits + (if ongoing_read dev then 0 else 1))", goal_cases)
  case 1
  show ?case by simp
next
  case 2
  then show ?case
    by (auto simp: usb_giveback_in_def ugci_read_bulk_callback_def Let_def split: list.splits)
next
  case 3
  then show ?case
    by (auto simp: ugci_do_read_io_def Let_def EIO_def split: if_splits)
next
  case 4
  then show ?case
    by (auto simp: ugci_do_read_io_def Let_def EIO_def split: if_splits)
qed

declare ugci_read_retry.simps [simp del]

text \<open>
  \<open>ugci_read\<close>. \<open>lock_intr\<close> says that a signal interrupts \<open>mutex_lock_interruptible\<close>.
\<close>

definition ugci_read ::
  "usb_ugci \<Rightarrow> nat \<Rightarrow> nat \<Rightarrow> bool \<Rightarrow> bool \<Rightarrow> wait_outcome list \<Rightarrow> nat list
     \<Rightarrow> racing list \<Rightarrow> result \<times> byte list \<times> usb_ugci" where
  "ugci_read dev writable count nonblock lock_intr waits subs race =
     (if \<not> bulk_in_urb dev \<or> count = 0 then (Returned 0, [], dev)
      else if lock_intr then (Returned (- EINTR), [], dev)
      else if \<not> interface dev then (Returned (- ENODEV), [], dev)
      else ugci_read_retry dev writable count nonblock waits subs race)"

section \<open>Writing\<close>

text \<open>
  \<open>copy_from_user\<close>: the caller's memory is readable for the bytes \<open>src\<close>. The result is
  the staging buffer and the number of bytes that could not be copied.
\<close>

definition copy_from_user :: "byte list \<Rightarrow> nat \<Rightarrow> byte list \<times> nat" where
  "copy_from_user src n = (take n src @ replicate (n - length src) 0, n - length src)"

text \<open>
  The label \<open>error\<close> of \<open>ugci_write\<close>: if there is a request, its staging buffer \<open>buf\<close>
  (which may be \<open>NULL\<close>) and the request are freed; the permit is returned.
\<close>

definition ugci_write_error ::
  "usb_ugci \<Rightarrow> bool \<Rightarrow> byte list option \<Rightarrow> int \<Rightarrow> result \<times> usb_ugci" where
  "ugci_write_error dev has_urb buf retval =
     (let dev1 = (if has_urb then dev\<lparr>coherent := usb_free_coherent (coherent dev) buf\<rparr>
                  else dev)
      in (Returned retval, dev1\<lparr>limit_sem := limit_sem dev1 + 1\<rparr>))"

text \<open>
  \<open>ugci_write\<close> once it holds a permit. \<open>urb_ok\<close> and \<open>buf_ok\<close> say that \<open>usb_alloc_urb\<close>
  and \<open>usb_alloc_coherent\<close> succeed, \<open>e\<close> is the error number of \<open>usb_submit_urb\<close>. The
  staging buffer is on \<open>coherent\<close> from its allocation, with what \<open>copy_from_user\<close> has
  put into it.
\<close>

definition ugci_write_admitted ::
  "usb_ugci \<Rightarrow> byte list \<Rightarrow> nat \<Rightarrow> bool \<Rightarrow> bool \<Rightarrow> nat \<Rightarrow> result \<times> usb_ugci" where
  "ugci_write_admitted dev user_buffer writesize urb_ok buf_ok e =
     (case ugci_write_check dev of
        (retval, dev1) \<Rightarrow>
          if retval < 0 then ugci_write_error dev1 False None retval
          else if \<not> urb_ok then ugci_write_error dev1 False None (- ENOMEM)
          else if \<not> buf_ok then ugci_write_error dev1 True None (- ENOMEM)
          else (case copy_from_user user_buffer writesize of
                  (buf, not_copied) \<Rightarrow>
                    (let dev2 = dev1\<lparr>coherent := coherent dev1 @ [buf]\<rparr>
                     in if not_copied \<noteq> 0 then ugci_write_error dev2 True (Some buf) (- EFAULT)
                        else if \<not> interface dev2
                        then ugci_write_error dev2 True (Some buf) (- ENODEV)
                        else
                          (let u = \<lparr>transfer_buffer = buf,
                                    transfer_buffer_length = writesize\<rparr>;
                               dev3 = dev2\<lparr>submitted := submitted dev2 @ [u]\<rparr>;
                               retval = - int e
                           in if retval \<noteq> 0
                              then ugci_write_error
                                     (dev3\<lparr>submitted := butlast (submitted dev3)\<rparr>)
                                     True (Some buf) retval
                              else (Returned (ssize_t_of_size_t writesize), dev3)))))"

text \<open>
  \<open>ugci_write\<close>. \<open>signal\<close> says that a signal arrives while \<open>down_interruptible\<close> sleeps.
\<close>

definition ugci_write ::
  "nat \<Rightarrow> usb_ugci \<Rightarrow> byte list \<Rightarrow> nat \<Rightarrow> bool \<Rightarrow> bool \<Rightarrow> bool \<Rightarrow> bool \<Rightarrow> nat
     \<Rightarrow> result \<times> usb_ugci" where
  "ugci_write page_size dev user_buffer count nonblock signal urb_ok buf_ok e =
     (let writesize = min count (MAX_TRANSFER page_size)
      in if count = 0 then (Returned 0, dev)
         else if \<not> nonblock then
           (if limit_sem dev = 0
            then (if signal then (Returned (- ERESTARTSYS), dev) else (Blocked, dev))
            else ugci_write_admitted (dev\<lparr>limit_sem := limit_sem dev - 1\<rparr>)
                   user_buffer writesize urb_ok buf_ok e)
         else
           (if limit_sem dev = 0 then (Returned (- EAGAIN), dev)
            else ugci_write_admitted (dev\<lparr>limit_sem := limit_sem dev - 1\<rparr>)
                   user_buffer writesize urb_ok buf_ok e))"

section \<open>Draining, flushing and the life cycle\<close>

text \<open>
  \<open>usb_wait_anchor_empty_timeout\<close>: \<open>done\<close> lists the anchored requests that complete
  before the timeout, each by its position on the anchor and its error number. The call
  returns 0 exactly when the anchor is not empty afterwards.
\<close>

fun usb_wait_anchor_empty_timeout :: "usb_ugci \<Rightarrow> (nat \<times> nat) list \<Rightarrow> usb_ugci" where
  "usb_wait_anchor_empty_timeout dev [] = dev"
| "usb_wait_anchor_empty_timeout dev ((i, e) # done) =
     (case usb_giveback_out dev i (- int e) of
        None \<Rightarrow> usb_wait_anchor_empty_timeout dev done
      | Some dev' \<Rightarrow> usb_wait_anchor_empty_timeout dev' done)"

text \<open>
  \<open>usb_kill_anchored_urbs\<close> cancels the anchored requests from the tail of the anchor, and
  \<open>usb_kill_urb\<close> one request if it is in flight; a cancelled request completes with
  \<open>-ENOENT\<close> before the call returns.
\<close>

fun kill_anchored :: "nat \<Rightarrow> usb_ugci \<Rightarrow> usb_ugci" where
  "kill_anchored 0 dev = dev"
| "kill_anchored (Suc n) dev =
     (case usb_giveback_out dev (length (submitted dev) - 1) (- ENOENT) of
        None \<Rightarrow> dev
      | Some dev' \<Rightarrow> kill_anchored n dev')"

definition usb_kill_anchored_urbs :: "usb_ugci \<Rightarrow> usb_ugci" where
  "usb_kill_anchored_urbs dev = kill_anchored (length (submitted dev)) dev"

fun kill_in :: "nat \<Rightarrow> usb_ugci \<Rightarrow> usb_ugci" where
  "kill_in 0 dev = dev"
| "kill_in (Suc n) dev =
     (case usb_giveback_in dev (- ENOENT) [] of
        None \<Rightarrow> dev
      | Some dev' \<Rightarrow> kill_in n dev')"

definition usb_kill_urb_in :: "usb_ugci \<Rightarrow> usb_ugci" where
  "usb_kill_urb_in dev = kill_in (length (bulk_in_flight dev)) dev"

text \<open>\<open>ugci_draw_down\<close>.\<close>

definition ugci_draw_down :: "usb_ugci \<Rightarrow> (nat \<times> nat) list \<Rightarrow> usb_ugci" where
  "ugci_draw_down dev done =
     (let dev1 = usb_wait_anchor_empty_timeout dev done;
          dev2 = (if submitted dev1 \<noteq> [] then usb_kill_anchored_urbs dev1 else dev1)
      in usb_kill_urb_in dev2)"

text \<open>\<open>ugci_flush\<close> on an open file, whose \<open>private_data\<close> is the device.\<close>

definition ugci_flush :: "usb_ugci \<Rightarrow> (nat \<times> nat) list \<Rightarrow> int \<times> usb_ugci" where
  "ugci_flush dev done =
     (let dev1 = ugci_draw_down dev done;
          res = (if errors dev1 \<noteq> 0
                 then (if errors dev1 = - EPIPE then - EPIPE else - EIO) else 0)
      in (res, dev1\<lparr>errors := 0\<rparr>))"

text \<open>\<open>ugci_delete\<close> and \<open>kref_put\<close> with it as the release function.\<close>

definition ugci_delete :: "usb_ugci \<Rightarrow> usb_ugci" where
  "ugci_delete dev = dev\<lparr>freed := True\<rparr>"

definition kref_put :: "usb_ugci \<Rightarrow> usb_ugci" where
  "kref_put dev =
     (if kref dev = 1 then ugci_delete (dev\<lparr>kref := 0\<rparr>)
      else dev\<lparr>kref := kref dev - 1\<rparr>)"

text \<open>
  \<open>ugci_open\<close>: \<open>found\<close> says that \<open>usb_find_interface\<close> finds the interface for the
  minor number, \<open>e\<close> is the error number of \<open>usb_autopm_get_interface\<close>.
  \<open>ugci_release\<close> on an open file.
\<close>

definition ugci_open :: "usb_ugci \<Rightarrow> bool \<Rightarrow> nat \<Rightarrow> int \<times> usb_ugci" where
  "ugci_open dev found e =
     (if \<not> found then (- ENODEV, dev)
      else if \<not> intfdata dev then (- ENODEV, dev)
      else if - int e \<noteq> 0 then (- int e, dev)
      else (0, dev\<lparr>kref := kref dev + 1\<rparr>))"

definition ugci_release :: "usb_ugci \<Rightarrow> int \<times> usb_ugci" where
  "ugci_release dev = (0, kref_put dev)"

text \<open>
  \<open>ugci_disconnect\<close>: \<open>usb_set_intfdata\<close> with \<open>NULL\<close>, \<open>usb_deregister_dev\<close> (which does
  not touch the device structure), \<open>interface\<close> cleared under \<open>io_mutex\<close>,
  \<open>usb_kill_anchored_urbs\<close>, \<open>kref_put\<close>.
\<close>

definition ugci_disconnect :: "usb_ugci \<Rightarrow> usb_ugci" where
  "ugci_disconnect dev =
     (let dev0 = dev\<lparr>intfdata := False\<rparr>;
          dev1 = dev0\<lparr>interface := False\<rparr>;
          dev2 = usb_kill_anchored_urbs dev1
      in kref_put dev2)"

text \<open>
  \<open>ugci_suspend\<close>, which does nothing when the interface has no driver data,
  \<open>ugci_resume\<close>, and \<open>ugci_pre_reset\<close> (which keeps \<open>io_mutex\<close>) and \<open>ugci_post_reset\<close>
  (which releases it) on an interface that has its driver data.
\<close>

definition ugci_suspend :: "usb_ugci \<Rightarrow> (nat \<times> nat) list \<Rightarrow> int \<times> usb_ugci" where
  "ugci_suspend dev done =
     (if \<not> intfdata dev then (0, dev) else (0, ugci_draw_down dev done))"

definition ugci_resume :: "usb_ugci \<Rightarrow> int \<times> usb_ugci" where
  "ugci_resume dev = (0, dev)"

definition ugci_pre_reset :: "usb_ugci \<Rightarrow> (nat \<times> nat) list \<Rightarrow> int \<times> usb_ugci" where
  "ugci_pre_reset dev done = (0, ugci_draw_down dev done)"

definition ugci_post_reset :: "usb_ugci \<Rightarrow> int \<times> usb_ugci" where
  "ugci_post_reset dev = (0, dev\<lparr>errors := - EPIPE\<rparr>)"

text \<open>
  \<open>ugci_probe\<close>. \<open>find_e\<close> is the error number of \<open>usb_find_common_endpoints\<close>,
  \<open>wMaxPacketSize\<close> the field of the bulk-in endpoint descriptor, of which
  \<open>usb_endpoint_maxp\<close> keeps the low 11 bits; \<open>heap\<close> is the memory that \<open>kmalloc\<close> hands
  out (\<open>None\<close> when it fails), \<open>urb_ok\<close> says that \<open>usb_alloc_urb\<close> succeeds, and
  \<open>register_e\<close> is the error number of \<open>usb_register_dev\<close>. A failure after the allocation
  of the device drops the only reference, which frees it.
\<close>

definition usb_endpoint_maxp :: "16 word \<Rightarrow> nat" where
  "usb_endpoint_maxp wMaxPacketSize = unat wMaxPacketSize mod 2048"

definition kmalloc :: "nat \<Rightarrow> byte list \<Rightarrow> byte list" where
  "kmalloc n heap = take n heap @ replicate (n - length heap) 0"

definition ugci_probe ::
  "nat \<Rightarrow> 16 word \<Rightarrow> byte list option \<Rightarrow> bool \<Rightarrow> nat \<Rightarrow> int + usb_ugci" where
  "ugci_probe find_e wMaxPacketSize heap urb_ok register_e =
     (let dev = \<lparr>interface = True, limit_sem = WRITES_IN_FLIGHT, submitted = [],
                  bulk_in_urb = False, bulk_in_flight = [], bulk_in_submits = 0,
                  bulk_in_buffer = [],
                  bulk_in_size = 0, bulk_in_filled = 0, bulk_in_copied = 0, errors = 0,
                  ongoing_read = False, kref = 1, freed = False, coherent = [],
                  intfdata = False\<rparr>
      in if - int find_e \<noteq> 0 then Inl (- int find_e)
         else
           (let dev1 = dev\<lparr>bulk_in_size := usb_endpoint_maxp wMaxPacketSize\<rparr>
            in case heap of
                 None \<Rightarrow> Inl (- ENOMEM)
               | Some h \<Rightarrow>
                   (let dev2 = dev1\<lparr>bulk_in_buffer := kmalloc (bulk_in_size dev1) h\<rparr>
                    in if \<not> urb_ok then Inl (- ENOMEM)
                       else
                         (let dev3 = dev2\<lparr>bulk_in_urb := True\<rparr>;
                              dev4 = dev3\<lparr>intfdata := True\<rparr>
                          in if - int register_e \<noteq> 0 then Inl (- int register_e)
                             else Inr dev4))))"

section \<open>Sequences of operations\<close>

text \<open>
  The entry points take \<open>io_mutex\<close> or \<open>err_lock\<close> around what they do to the device
  structure, and the completion handlers run under \<open>err_lock\<close>; a history of the device is
  a sequence of these operations, each with what the caller and the transport contribute
  to it; a read call comes with what runs between its load and its store of \<open>errors\<close>. A
  reset is \<open>ugci_pre_reset\<close> followed by \<open>ugci_post_reset\<close>, between which \<open>io_mutex\<close> stays
  taken, and the core resets an interface that has its driver data only. A completion for
  a request that is not in flight does not happen.
\<close>

datatype event =
    Open bool nat
  | Release
  | Read nat nat bool bool "wait_outcome list" "nat list" "racing list"
  | Write "byte list" nat bool bool bool bool nat
  | Flush "(nat \<times> nat) list"
  | ReadDone nat "byte list"
  | WriteDone nat nat
  | Suspend "(nat \<times> nat) list"
  | Resume
  | Reset "(nat \<times> nat) list"
  | Disconnect

fun step :: "nat \<Rightarrow> usb_ugci \<Rightarrow> event \<Rightarrow> usb_ugci" where
  "step ps dev (Open found e) = snd (ugci_open dev found e)"
| "step ps dev Release = snd (ugci_release dev)"
| "step ps dev (Read writable count nonblock lock_intr waits subs race) =
     snd (snd (ugci_read dev writable count nonblock lock_intr waits subs race))"
| "step ps dev (Write user_buffer count nonblock signal urb_ok buf_ok e) =
     snd (ugci_write ps dev user_buffer count nonblock signal urb_ok buf_ok e)"
| "step ps dev (Flush done) = snd (ugci_flush dev done)"
| "step ps dev (ReadDone e data) =
     (case usb_giveback_in dev (- int e) data of None \<Rightarrow> dev | Some dev' \<Rightarrow> dev')"
| "step ps dev (WriteDone i e) =
     (case usb_giveback_out dev i (- int e) of None \<Rightarrow> dev | Some dev' \<Rightarrow> dev')"
| "step ps dev (Suspend done) = snd (ugci_suspend dev done)"
| "step ps dev Resume = snd (ugci_resume dev)"
| "step ps dev (Reset done) =
     (if intfdata dev then snd (ugci_post_reset (snd (ugci_pre_reset dev done))) else dev)"
| "step ps dev Disconnect = ugci_disconnect dev"

definition run :: "nat \<Rightarrow> usb_ugci \<Rightarrow> event list \<Rightarrow> usb_ugci" where
  "run ps dev evs = foldl (step ps) dev evs"

text \<open>The bytes that a transfer has delivered and no reader has consumed yet.\<close>

definition unread :: "usb_ugci \<Rightarrow> byte list" where
  "unread dev = drop (bulk_in_copied dev) (take (bulk_in_filled dev) (bulk_in_buffer dev))"

section \<open>Invariants of the device structure\<close>

text \<open>
  Every permit of \<open>limit_sem\<close> that is not free belongs to a write request in flight.
\<close>

definition permits_inv :: "usb_ugci \<Rightarrow> bool" where
  "permits_inv dev \<longleftrightarrow> limit_sem dev + length (submitted dev) = WRITES_IN_FLIGHT"

text \<open>\<open>ongoing_read\<close> says whether the inbound request is in flight, and it is so once.\<close>

definition read_inv :: "usb_ugci \<Rightarrow> bool" where
  "read_inv dev \<longleftrightarrow> length (bulk_in_flight dev) = (if ongoing_read dev then 1 else 0)"

text \<open>
  The offsets into the receive buffer are ordered and within the buffer, whose size is a
  packet size; a transfer in flight asks for no more than the buffer holds, and the buffer
  counts as empty while it is in flight.
\<close>

definition buffer_inv :: "usb_ugci \<Rightarrow> bool" where
  "buffer_inv dev \<longleftrightarrow>
     bulk_in_copied dev \<le> bulk_in_filled dev \<and>
     bulk_in_filled dev \<le> bulk_in_size dev \<and>
     bulk_in_size dev < 2048 \<and>
     length (bulk_in_buffer dev) = bulk_in_size dev \<and>
     list_all (\<lambda>len. len \<le> bulk_in_size dev) (bulk_in_flight dev) \<and>
     (ongoing_read dev \<longrightarrow> bulk_in_filled dev = 0)"

text \<open>The staging buffers handed out are those of the write requests in flight.\<close>

definition staging_inv :: "usb_ugci \<Rightarrow> bool" where
  "staging_inv dev \<longleftrightarrow>
     (\<forall>b \<in> set (coherent dev) \<union> set (map transfer_buffer (submitted dev)).
        count_list (coherent dev) b = count_list (map transfer_buffer (submitted dev)) b)"

definition dev_inv :: "usb_ugci \<Rightarrow> bool" where
  "dev_inv dev \<longleftrightarrow> permits_inv dev \<and> read_inv dev \<and> buffer_inv dev"


text \<open>
  From \<open>d\<close> to \<open>d'\<close> the consumed offset has not gone back unless the inbound request was
  submitted in between.
\<close>

definition no_rewind :: "usb_ugci \<Rightarrow> usb_ugci \<Rightarrow> bool" where
  "no_rewind d d' \<longleftrightarrow>
     bulk_in_submits d \<le> bulk_in_submits d' \<and>
     (bulk_in_submits d' = bulk_in_submits d \<longrightarrow> bulk_in_copied d \<le> bulk_in_copied d')"

section \<open>Arithmetic of sizes\<close>

lemma size_t_sub_eq: "b \<le> a \<Longrightarrow> a < 2 ^ 64 \<Longrightarrow> size_t_sub a b = a - b"
proof -
  assume a: "b \<le> a" "a < 2 ^ 64"
  have "a + 2 ^ 64 - b = (a - b) + 1 * 2 ^ 64" using a by simp
  then have "(a + 2 ^ 64 - b) mod 2 ^ 64 = (a - b) mod 2 ^ 64"
    by (metis mod_mult_self1)
  also have "\<dots> = a - b" using a by (intro mod_less) arith
  finally show ?thesis by (simp only: size_t_sub_def)
qed

lemma size_t_add_eq: "a + b < 2 ^ 64 \<Longrightarrow> size_t_add a b = a + b"
  by (simp add: size_t_add_def)

section \<open>Reading: end of file, delivery and faults\<close>

text \<open>
  Claim C9. A read call that asks for no bytes, and a read call on a device without an
  inbound request, returns 0, delivers nothing and leaves the whole device structure as
  it was.
\<close>

theorem ugci_read_eof:
  assumes "count = 0 \<or> \<not> bulk_in_urb dev"
  shows "ugci_read dev writable count nonblock lock_intr waits subs race = (Returned 0, [], dev)"
  using assms by (auto simp: ugci_read_def)

theorem ugci_read_eof_witness:
  "ugci_read \<lparr>interface = True, limit_sem = 8, submitted = [], bulk_in_urb = True,
      bulk_in_flight = [], bulk_in_submits = 0, bulk_in_buffer = [7, 8], bulk_in_size = 2, bulk_in_filled = 2,
      bulk_in_copied = 0, errors = - 32, ongoing_read = False, kref = 1, freed = False, coherent = [], intfdata = True\<rparr>
     5 0 False False [] [] []
   = (Returned 0, [],
      \<lparr>interface = True, limit_sem = 8, submitted = [], bulk_in_urb = True,
      bulk_in_flight = [], bulk_in_submits = 0, bulk_in_buffer = [7, 8], bulk_in_size = 2, bulk_in_filled = 2,
      bulk_in_copied = 0, errors = - 32, ongoing_read = False, kref = 1, freed = False, coherent = [], intfdata = True\<rparr>)
   \<and> ugci_read \<lparr>interface = True, limit_sem = 8, submitted = [], bulk_in_urb = False,
      bulk_in_flight = [], bulk_in_submits = 0, bulk_in_buffer = [7, 8], bulk_in_size = 2, bulk_in_filled = 2,
      bulk_in_copied = 0, errors = - 32, ongoing_read = False, kref = 1, freed = False, coherent = [], intfdata = True\<rparr>
     5 3 False False [] [] []
   = (Returned 0, [],
      \<lparr>interface = True, limit_sem = 8, submitted = [], bulk_in_urb = False,
      bulk_in_flight = [], bulk_in_submits = 0, bulk_in_buffer = [7, 8], bulk_in_size = 2, bulk_in_filled = 2,
      bulk_in_copied = 0, errors = - 32, ongoing_read = False, kref = 1, freed = False, coherent = [], intfdata = True\<rparr>)"
  by (simp add: ugci_read_eof)

lemma ugci_read_available:
  assumes "bulk_in_urb dev" "0 < count" "\<not> lock_intr" "interface dev"
    and "\<not> ongoing_read dev" "\<not> errors dev < 0"
    and "bulk_in_copied dev < bulk_in_filled dev" "bulk_in_filled dev < 2 ^ 64"
  shows "ugci_read dev writable count nonblock lock_intr waits subs race =
           ugci_read_deliver dev writable count (next_errno subs)"
  using assms
  by (simp add: ugci_read_def ugci_read_retry.simps [of dev] size_t_sub_eq)

lemma ugci_do_read_io_unread: "unread (snd (ugci_do_read_io dev count e)) = []"
  by (simp add: ugci_do_read_io_def unread_def Let_def)

lemma ugci_read_deliver_eq:
  assumes "bulk_in_copied dev \<le> bulk_in_filled dev" "bulk_in_filled dev < 2 ^ 64"
    and "chunk = min (bulk_in_filled dev - bulk_in_copied dev) count"
    and "src = take chunk (drop (bulk_in_copied dev) (bulk_in_buffer dev))"
  shows "ugci_read_deliver dev writable count e =
           (Returned (if length src \<le> writable then int_of_size_t chunk else - EFAULT),
            take writable src,
            (if bulk_in_filled dev - bulk_in_copied dev < count
             then snd (ugci_do_read_io (dev\<lparr>bulk_in_copied := bulk_in_copied dev + chunk\<rparr>)
                         (size_t_sub count chunk) e)
             else dev\<lparr>bulk_in_copied := bulk_in_copied dev + chunk\<rparr>))"
proof -
  have sub: "size_t_sub (bulk_in_filled dev) (bulk_in_copied dev)
               = bulk_in_filled dev - bulk_in_copied dev"
    using assms by (simp add: size_t_sub_eq)
  have "bulk_in_copied dev + chunk \<le> bulk_in_filled dev"
    using assms by simp
  then have "bulk_in_copied dev + chunk < 2 ^ 64"
    using assms(2) by (rule le_less_trans)
  then have add: "size_t_add (bulk_in_copied dev) chunk = bulk_in_copied dev + chunk"
    by (rule size_t_add_eq)
  show ?thesis
    unfolding ugci_read_deliver_def sub copy_to_user_def Let_def assms(3) [symmetric] add
      assms(4) [symmetric]
    by simp
qed

lemma take_chunk_unread:
  "take (min (bulk_in_filled dev - bulk_in_copied dev) count)
        (drop (bulk_in_copied dev) (bulk_in_buffer dev))
     = take count (unread dev)"
  by (simp add: unread_def drop_take min.commute)

text \<open>
  A read call that finds no transfer under way, no error pending and unread bytes in the
  buffer hands the caller the first \<open>count\<close> unread bytes, as far as the caller's buffer
  is writable.
\<close>

lemma ugci_read_delivers_unread:
  assumes "bulk_in_urb dev" "0 < count" "\<not> lock_intr" "interface dev"
    and "\<not> ongoing_read dev" "\<not> errors dev < 0"
    and "bulk_in_copied dev < bulk_in_filled dev" "bulk_in_filled dev < 2 ^ 64"
  shows "fst (snd (ugci_read dev writable count nonblock lock_intr waits subs race))
           = take writable (take count (unread dev))"
proof -
  have le: "bulk_in_copied dev \<le> bulk_in_filled dev" using assms(7) by simp
  show ?thesis
    unfolding ugci_read_available [OF assms]
      ugci_read_deliver_eq [OF le assms(8) refl refl] take_chunk_unread
    by simp
qed


text \<open>
  Claim C10. A read call finds unread bytes, and the caller's buffer is not writable for
  the whole chunk. The call returns \<open>-EFAULT\<close>, and the chunk is consumed all the same:
  the unread bytes afterwards are the former ones without the chunk. When the caller asked
  for no more than was there, \<open>bulk_in_copied\<close> has advanced by the chunk and nothing else
  has changed; when the caller asked for less, the next read call that finds the device
  this way delivers the bytes after the chunk. (When the caller asked for more, the
  read-ahead that follows the copy has emptied the buffer.)
\<close>

theorem ugci_read_fault_drops:
  assumes "bulk_in_urb dev" "0 < count" "\<not> lock_intr" "interface dev"
    and "\<not> ongoing_read dev" "\<not> errors dev < 0"
    and "bulk_in_copied dev < bulk_in_filled dev" "bulk_in_filled dev < 2 ^ 64"
    and "bulk_in_filled dev \<le> length (bulk_in_buffer dev)"
    and "chunk = min (bulk_in_filled dev - bulk_in_copied dev) count"
    and "writable < chunk"
    and "ugci_read dev writable count nonblock lock_intr waits subs race = (r, out, dev')"
    and "0 < count'"
  shows "r = Returned (- EFAULT)
       \<and> unread dev' = drop chunk (unread dev)
       \<and> (count \<le> bulk_in_filled dev - bulk_in_copied dev \<longrightarrow>
            dev' = dev\<lparr>bulk_in_copied := bulk_in_copied dev + chunk\<rparr>)
       \<and> (count < bulk_in_filled dev - bulk_in_copied dev \<longrightarrow>
            fst (snd (ugci_read dev' writable' count' nonblock' False waits' subs' race'))
              = take writable' (take count' (drop chunk (unread dev))))"
proof -
  have len: "length (take chunk (drop (bulk_in_copied dev) (bulk_in_buffer dev))) = chunk"
    using assms(7,9,10) by simp
  have d: "ugci_read_deliver dev writable count (next_errno subs) = (r, out, dev')"
    using assms(1-8,12) ugci_read_available [of dev count lock_intr] by simp
  have le: "bulk_in_copied dev \<le> bulk_in_filled dev" using assms(7) by simp
  note eq = ugci_read_deliver_eq [OF le assms(8) assms(10) refl, of writable "next_errno subs"]
  have r: "r = Returned (- EFAULT)"
    using d assms(11) unfolding eq len by simp
  have dev': "dev' = (if bulk_in_filled dev - bulk_in_copied dev < count
             then snd (ugci_do_read_io (dev\<lparr>bulk_in_copied := bulk_in_copied dev + chunk\<rparr>)
                         (size_t_sub count chunk) (next_errno subs))
             else dev\<lparr>bulk_in_copied := bulk_in_copied dev + chunk\<rparr>)"
    using d unfolding eq by simp
  have un: "unread dev' = drop chunk (unread dev)"
  proof (cases "bulk_in_filled dev - bulk_in_copied dev < count")
    case True
    then have "chunk = bulk_in_filled dev - bulk_in_copied dev"
      using assms(10) by simp
    then have "drop chunk (unread dev) = []"
      by (simp add: unread_def)
    then show ?thesis using True dev' by (simp add: ugci_do_read_io_unread)
  next
    case False
    then show ?thesis using dev' by (simp add: unread_def add.commute)
  qed
  have same: "dev' = dev\<lparr>bulk_in_copied := bulk_in_copied dev + chunk\<rparr>"
    if "count \<le> bulk_in_filled dev - bulk_in_copied dev"
    using that dev' by simp
  have nxt: "fst (snd (ugci_read dev' writable' count' nonblock' False waits' subs' race'))
              = take writable' (take count' (drop chunk (unread dev)))"
    if less: "count < bulk_in_filled dev - bulk_in_copied dev"
  proof -
    have s: "dev' = dev\<lparr>bulk_in_copied := bulk_in_copied dev + chunk\<rparr>"
      using less same by simp
    have c: "chunk = count" using less assms(10) by simp
    have "fst (snd (ugci_read dev' writable' count' nonblock' False waits' subs' race'))
            = take writable' (take count' (unread dev'))"
      by (rule ugci_read_delivers_unread) (use assms less in \<open>simp_all add: s c\<close>)
    then show ?thesis by (simp only: un)
  qed
  show ?thesis using r un same nxt by blast
qed

theorem ugci_read_fault_drops_witness:
  "ugci_read \<lparr>interface = True, limit_sem = 8, submitted = [], bulk_in_urb = True,
      bulk_in_flight = [], bulk_in_submits = 0, bulk_in_buffer = [10, 11, 12, 13, 14, 15], bulk_in_size = 6,
      bulk_in_filled = 5, bulk_in_copied = 1, errors = 0, ongoing_read = False, kref = 1,
      freed = False, coherent = [], intfdata = True\<rparr> 1 2 False False [] [] []
   = (Returned (- EFAULT), [11],
      \<lparr>interface = True, limit_sem = 8, submitted = [], bulk_in_urb = True,
      bulk_in_flight = [], bulk_in_submits = 0, bulk_in_buffer = [10, 11, 12, 13, 14, 15], bulk_in_size = 6,
      bulk_in_filled = 5, bulk_in_copied = 3, errors = 0, ongoing_read = False, kref = 1,
      freed = False, coherent = [], intfdata = True\<rparr>)
   \<and> fst (snd (ugci_read \<lparr>interface = True, limit_sem = 8, submitted = [], bulk_in_urb = True,
      bulk_in_flight = [], bulk_in_submits = 0, bulk_in_buffer = [10, 11, 12, 13, 14, 15], bulk_in_size = 6,
      bulk_in_filled = 5, bulk_in_copied = 3, errors = 0, ongoing_read = False, kref = 1,
      freed = False, coherent = [], intfdata = True\<rparr> 9 9 False False [] [] [])) = [13, 14]"
proof -
  let ?dev = "\<lparr>interface = True, limit_sem = 8, submitted = [], bulk_in_urb = True,
      bulk_in_flight = [], bulk_in_submits = 0, bulk_in_buffer = [10, 11, 12, 13, 14, 15 :: byte], bulk_in_size = 6,
      bulk_in_filled = 5, bulk_in_copied = 1, errors = 0, ongoing_read = False, kref = 1,
      freed = False, coherent = [], intfdata = True\<rparr>"
  obtain r out dev' where res: "ugci_read ?dev 1 2 False False [] [] [] = (r, out, dev')"
    by (metis prod_cases3)
  have out: "out = [11]"
    using ugci_read_delivers_unread [where dev = ?dev and count = 2 and lock_intr = False
        and writable = 1 and nonblock = False and waits = "[]" and subs = "[]" and race = "[]"] res
    by (simp add: unread_def)
  have "r = Returned (- EFAULT)
       \<and> unread dev' = drop 2 (unread ?dev)
       \<and> (2 \<le> bulk_in_filled ?dev - bulk_in_copied ?dev \<longrightarrow>
            dev' = ?dev\<lparr>bulk_in_copied := bulk_in_copied ?dev + 2\<rparr>)
       \<and> (2 < bulk_in_filled ?dev - bulk_in_copied ?dev \<longrightarrow>
            fst (snd (ugci_read dev' 9 9 False False [] [] []))
              = take 9 (take 9 (drop 2 (unread ?dev))))"
    by (rule ugci_read_fault_drops [where count = 2 and writable = 1 and lock_intr = False
          and nonblock = False and waits = "[]" and subs = "[]" and out = out])
       (use res in simp_all)
  then show ?thesis
    unfolding res out by (clarsimp simp: unread_def eval_nat_numeral)
qed

section \<open>The invariants hold in every reachable state\<close>

text \<open>
  What every step of the loop of \<open>ugci_read\<close> preserves, the loop preserves.
\<close>

lemma ugci_read_retry_preserves:
  assumes "P dev"
    and gb: "\<And>d st data d'. P d \<Longrightarrow> ongoing_read d \<Longrightarrow> usb_giveback_in d st data = Some d' \<Longrightarrow> P d'"
    and io: "\<And>d c e. P d \<Longrightarrow> \<not> ongoing_read d \<Longrightarrow> P (snd (ugci_do_read_io d c e))"
    and dl: "\<And>d w c e. P d \<Longrightarrow> \<not> ongoing_read d \<Longrightarrow> P (snd (snd (ugci_read_deliver d w c e)))"
    and er: "\<And>d r. P d \<Longrightarrow> P ((race_with d r)\<lparr>errors := 0\<rparr>)"
  shows "P (snd (snd (ugci_read_retry dev writable count nonblock waits subs race)))"
  using assms(1)
proof (induction dev writable count nonblock waits subs race rule: ugci_read_retry.induct)
  case (1 dev writable count nonblock waits subs race)
  show ?case
  proof (cases "ongoing_read dev")
    case True
    show ?thesis
    proof (cases "nonblock")
      case True
      with \<open>ongoing_read dev\<close> "1.prems" show ?thesis
        by (subst ugci_read_retry.simps) simp
    next
      case False
      show ?thesis
      proof (cases waits)
        case Nil
        with False \<open>ongoing_read dev\<close> "1.prems" show ?thesis
          by (subst ugci_read_retry.simps) simp
      next
        case (Cons w ws)
        show ?thesis
        proof (cases w)
          case Signal
          with Cons False \<open>ongoing_read dev\<close> "1.prems" show ?thesis
            by (subst ugci_read_retry.simps) simp
        next
          case (Completion e data)
          show ?thesis
          proof (cases "usb_giveback_in dev (- int e) data")
            case None
            with Completion Cons False \<open>ongoing_read dev\<close> "1.prems" show ?thesis
              by (subst ugci_read_retry.simps) simp
          next
            case (Some dev')
            have "P dev'" using gb [OF "1.prems" \<open>ongoing_read dev\<close> Some] .
            then have "P (snd (snd (ugci_read_retry dev' writable count nonblock ws subs race)))"
              using "1.IH"(1) \<open>ongoing_read dev\<close> False Cons Completion Some by simp
            with Some Completion Cons False \<open>ongoing_read dev\<close> show ?thesis
              by (subst ugci_read_retry.simps) simp
          qed
        qed
      qed
    qed
  next
    case False
    note idle = False
    show ?thesis
    proof (cases "errors dev < 0")
      case True
      with idle er [OF "1.prems"] show ?thesis
        by (subst ugci_read_retry.simps) simp
    next
      case False
      note noerr = False
      obtain rv dev' where io_eq: "ugci_do_read_io dev count (next_errno subs) = (rv, dev')"
        by (cases "ugci_do_read_io dev count (next_errno subs)")
      have P': "P dev'" using io [OF "1.prems" idle, of count "next_errno subs"] io_eq by simp
      show ?thesis
      proof (cases "bulk_in_filled dev \<noteq> 0")
        case True
        note filled = True
        show ?thesis
        proof (cases "size_t_sub (bulk_in_filled dev) (bulk_in_copied dev) = 0")
          case True
          show ?thesis
          proof (cases "rv < 0")
            case True
            with \<open>size_t_sub (bulk_in_filled dev) (bulk_in_copied dev) = 0\<close> filled noerr idle io_eq P'
            show ?thesis by (subst ugci_read_retry.simps) simp
          next
            case False
            have "P (snd (snd (ugci_read_retry dev' writable count nonblock waits (tl subs) race)))"
              using "1.IH"(2) [OF idle noerr filled True io_eq [symmetric] False P'] .
            with False True filled noerr idle io_eq show ?thesis
              by (subst ugci_read_retry.simps) simp
          qed
        next
          case False
          with filled noerr idle dl [OF "1.prems" idle] show ?thesis
            by (subst ugci_read_retry.simps) simp
        qed
      next
        case False
        note empty = False
        show ?thesis
        proof (cases "rv < 0")
          case True
          with empty noerr idle io_eq P' show ?thesis
            by (subst ugci_read_retry.simps) simp
        next
          case False
          have "P (snd (snd (ugci_read_retry dev' writable count nonblock waits (tl subs) race)))"
            using "1.IH"(3) [OF idle noerr _ io_eq [symmetric] False P'] empty
            by simp
          with False empty noerr idle io_eq show ?thesis
            by (subst ugci_read_retry.simps) simp
        qed
      qed
    qed
  qed
qed


lemmas inv_defs = dev_inv_def permits_inv_def read_inv_def buffer_inv_def

lemma inv_giveback_in:
  "dev_inv dev \<Longrightarrow> usb_giveback_in dev st data = Some dev' \<Longrightarrow> dev_inv dev'"
  by (auto simp: inv_defs usb_giveback_in_def ugci_read_bulk_callback_def Let_def
           split: list.splits if_splits)

lemma inv_giveback_out:
  "dev_inv dev \<Longrightarrow> usb_giveback_out dev i st = Some dev' \<Longrightarrow> dev_inv dev'"
  by (auto simp: inv_defs usb_giveback_out_def ugci_write_bulk_callback_def Let_def
           split: if_splits)

lemma inv_do_read_io:
  "dev_inv dev \<Longrightarrow> \<not> ongoing_read dev \<Longrightarrow> dev_inv (snd (ugci_do_read_io dev count e))"
  by (auto simp: inv_defs ugci_do_read_io_def Let_def split: if_splits)

lemma inv_errors: "dev_inv dev \<Longrightarrow> dev_inv (dev\<lparr>errors := x\<rparr>)"
  by (auto simp: inv_defs)

lemma inv_copied:
  "dev_inv dev \<Longrightarrow> \<not> ongoing_read dev \<Longrightarrow> x \<le> bulk_in_filled dev \<Longrightarrow>
     dev_inv (dev\<lparr>bulk_in_copied := x\<rparr>)"
  by (auto simp: inv_defs)

lemma inv_deliver:
  assumes "dev_inv dev" "\<not> ongoing_read dev"
  shows "dev_inv (snd (snd (ugci_read_deliver dev w count e)))"
proof -
  have le: "bulk_in_copied dev \<le> bulk_in_filled dev" and lt: "bulk_in_filled dev < 2 ^ 64"
    using assms(1) by (auto simp: inv_defs)
  let ?chunk = "min (bulk_in_filled dev - bulk_in_copied dev) count"
  have c: "dev_inv (dev\<lparr>bulk_in_copied := bulk_in_copied dev + ?chunk\<rparr>)"
    using assms le by (intro inv_copied) auto
  have "dev_inv (snd (ugci_do_read_io (dev\<lparr>bulk_in_copied := bulk_in_copied dev + ?chunk\<rparr>)
                        (size_t_sub count ?chunk) e))"
    using c assms(2) by (intro inv_do_read_io) simp_all
  with c show ?thesis
    unfolding ugci_read_deliver_eq [OF le lt refl refl]
    by (simp only: snd_conv if_split) simp
qed

lemma inv_write_check: "dev_inv dev \<Longrightarrow> dev_inv (snd (ugci_write_check dev))"
  by (simp add: ugci_write_check_def Let_def inv_errors)

lemma inv_race_with: "dev_inv dev \<Longrightarrow> dev_inv (race_with dev r)"
proof (induction r arbitrary: dev)
  case Nil
  then show ?case by simp
next
  case (Cons x r)
  show ?case
  proof (cases x)
    case Racing_check
    then show ?thesis using Cons by (simp add: inv_write_check)
  next
    case (Racing_done i e)
    then show ?thesis
      using Cons by (auto split: option.splits dest: inv_giveback_out)
  qed
qed

lemma inv_read_retry:
  "dev_inv dev \<Longrightarrow> dev_inv (snd (snd (ugci_read_retry dev writable count nonblock waits subs race)))"
  by (rule ugci_read_retry_preserves [where P = dev_inv])
     (auto intro: inv_giveback_in inv_do_read_io inv_deliver inv_errors inv_race_with)

lemma inv_read:
  "dev_inv dev \<Longrightarrow> dev_inv (snd (snd (ugci_read dev writable count nonblock lock_intr waits subs race)))"
  by (simp add: ugci_read_def inv_read_retry)

lemma inv_write_admitted:
  assumes "dev_inv (dev\<lparr>limit_sem := limit_sem dev + 1\<rparr>)"
  shows "dev_inv (snd (ugci_write_admitted dev user_buffer writesize urb_ok buf_ok e))"
  using assms
  by (auto simp: inv_defs ugci_write_admitted_def ugci_write_error_def ugci_write_check_def
           Let_def split: prod.splits)

lemma inv_write:
  assumes "dev_inv dev"
  shows "dev_inv (snd (ugci_write ps dev user_buffer count nonblock signal urb_ok buf_ok e))"
proof -
  have "dev_inv (snd (ugci_write_admitted (dev\<lparr>limit_sem := limit_sem dev - 1\<rparr>)
                        user_buffer writesize urb_ok buf_ok e))"
    if "limit_sem dev \<noteq> 0" for writesize
    using that assms by (intro inv_write_admitted) (auto simp: inv_defs)
  then show ?thesis using assms by (simp add: ugci_write_def Let_def)
qed

lemma inv_wait_anchor:
  "dev_inv dev \<Longrightarrow> dev_inv (usb_wait_anchor_empty_timeout dev done)"
  by (induction dev "done" rule: usb_wait_anchor_empty_timeout.induct)
     (auto split: option.splits dest: inv_giveback_out)

lemma inv_kill_anchored: "dev_inv dev \<Longrightarrow> dev_inv (kill_anchored n dev)"
  by (induction n arbitrary: dev) (auto split: option.splits dest: inv_giveback_out)

lemma inv_kill_in: "dev_inv dev \<Longrightarrow> dev_inv (kill_in n dev)"
  by (induction n arbitrary: dev) (auto split: option.splits dest: inv_giveback_in)

lemma inv_draw_down: "dev_inv dev \<Longrightarrow> dev_inv (ugci_draw_down dev done)"
  by (simp add: ugci_draw_down_def usb_kill_anchored_urbs_def usb_kill_urb_in_def Let_def
        inv_wait_anchor inv_kill_anchored inv_kill_in)

lemma inv_kref_put: "dev_inv dev \<Longrightarrow> dev_inv (kref_put dev)"
  by (auto simp: inv_defs kref_put_def ugci_delete_def)

lemma inv_interface: "dev_inv dev \<Longrightarrow> dev_inv (dev\<lparr>intfdata := y, interface := x\<rparr>)"
  by (auto simp: inv_defs)

lemma inv_step: "dev_inv dev \<Longrightarrow> dev_inv (step ps dev ev)"
proof (cases ev)
  case (Open found e)
  assume "dev_inv dev"
  then show ?thesis using Open by (auto simp: ugci_open_def inv_defs)
next
  case Disconnect
  assume "dev_inv dev"
  then show ?thesis using Disconnect
    by (simp add: ugci_disconnect_def usb_kill_anchored_urbs_def Let_def
          inv_kref_put inv_kill_anchored inv_interface)
qed (auto simp: ugci_release_def ugci_flush_def ugci_suspend_def ugci_resume_def
       ugci_pre_reset_def ugci_post_reset_def Let_def
       intro: inv_read inv_write inv_draw_down inv_errors inv_kref_put
       dest: inv_giveback_in inv_giveback_out split: option.splits)

lemma inv_run: "dev_inv dev \<Longrightarrow> dev_inv (run ps dev evs)"
  unfolding run_def by (induction evs arbitrary: dev) (simp_all add: inv_step)

lemma inv_probe:
  "ugci_probe find_e wMaxPacketSize heap urb_ok register_e = Inr dev \<Longrightarrow> dev_inv dev"
  by (auto simp: ugci_probe_def Let_def inv_defs usb_endpoint_maxp_def kmalloc_def
        WRITES_IN_FLIGHT_def split: if_splits option.splits)


section \<open>The paths of the read loop and of a write call\<close>

text \<open>The loop of \<open>ugci_read\<close>, one equation for each way through its body.\<close>

lemma retry_nonblock:
  "ongoing_read dev \<Longrightarrow> nonblock \<Longrightarrow>
     ugci_read_retry dev writable count nonblock waits subs race = (Returned (- EAGAIN), [], dev)"
  by (subst ugci_read_retry.simps) simp

lemma retry_blocked:
  "ongoing_read dev \<Longrightarrow> \<not> nonblock \<Longrightarrow>
     ugci_read_retry dev writable count nonblock [] subs race = (Blocked, [], dev)"
  by (subst ugci_read_retry.simps) simp

lemma retry_signal:
  "ongoing_read dev \<Longrightarrow> \<not> nonblock \<Longrightarrow>
     ugci_read_retry dev writable count nonblock (Signal # ws) subs race
       = (Returned (- ERESTARTSYS), [], dev)"
  by (subst ugci_read_retry.simps) simp

lemma retry_completion:
  "ongoing_read dev \<Longrightarrow> \<not> nonblock \<Longrightarrow> usb_giveback_in dev (- int e) data = Some dev' \<Longrightarrow>
     ugci_read_retry dev writable count nonblock (Completion e data # ws) subs race
       = ugci_read_retry dev' writable count nonblock ws subs race"
  by (subst ugci_read_retry.simps) simp

lemma retry_error:
  "\<not> ongoing_read dev \<Longrightarrow> errors dev < 0 \<Longrightarrow>
     ugci_read_retry dev writable count nonblock waits subs race
       = (Returned (if errors dev = - EPIPE then errors dev else - EIO), [],
          (race_with dev race)\<lparr>errors := 0\<rparr>)"
  by (subst ugci_read_retry.simps) simp

lemma retry_deliver:
  "\<not> ongoing_read dev \<Longrightarrow> \<not> errors dev < 0 \<Longrightarrow> bulk_in_filled dev \<noteq> 0 \<Longrightarrow>
   size_t_sub (bulk_in_filled dev) (bulk_in_copied dev) \<noteq> 0 \<Longrightarrow>
     ugci_read_retry dev writable count nonblock waits subs race
       = ugci_read_deliver dev writable count (next_errno subs)"
  by (subst ugci_read_retry.simps) simp

lemma retry_submit:
  "\<not> ongoing_read dev \<Longrightarrow> \<not> errors dev < 0 \<Longrightarrow>
   bulk_in_filled dev = 0 \<or> size_t_sub (bulk_in_filled dev) (bulk_in_copied dev) = 0 \<Longrightarrow>
     ugci_read_retry dev writable count nonblock waits subs race
       = (if fst (ugci_do_read_io dev count (next_errno subs)) < 0
          then (Returned (fst (ugci_do_read_io dev count (next_errno subs))), [],
                snd (ugci_do_read_io dev count (next_errno subs)))
          else ugci_read_retry (snd (ugci_do_read_io dev count (next_errno subs)))
                 writable count nonblock waits (tl subs) race)"
  by (subst ugci_read_retry.simps) (auto split: prod.splits)

lemmas retry_simps = retry_nonblock retry_blocked retry_signal retry_completion retry_error
  retry_deliver retry_submit



text \<open>The exits of \<open>ugci_write\<close> and what each leaves behind.\<close>

lemma ssize_t_of_size_t_eq: "n < 2 ^ 63 \<Longrightarrow> ssize_t_of_size_t n = int n"
  by (simp add: ssize_t_of_size_t_def Let_def)

lemma ugci_write_admitted_cases:
  assumes "ugci_write_admitted dev user_buffer writesize urb_ok buf_ok e = (r, dev')"
  shows "(\<exists>rv. r = Returned rv \<and> rv < 0 \<and> limit_sem dev' = limit_sem dev + 1
              \<and> submitted dev' = submitted dev)
       \<or> (r = Returned (ssize_t_of_size_t writesize) \<and> limit_sem dev' = limit_sem dev
              \<and> submitted dev' = submitted dev @
                   [\<lparr>transfer_buffer = take writesize user_buffer,
                     transfer_buffer_length = writesize\<rparr>]
              \<and> writesize \<le> length user_buffer)"
  using assms
  by (auto simp: ugci_write_admitted_def ugci_write_error_def ugci_write_check_def
        copy_from_user_def Let_def errno_defs split: if_splits)

lemma ugci_write_cases:
  assumes "ugci_write ps dev user_buffer count nonblock signal urb_ok buf_ok e = (r, dev')"
    and "writesize = min count (MAX_TRANSFER ps)"
  shows "(r = Returned 0 \<and> count = 0 \<and> dev' = dev)
       \<or> (r = Blocked \<and> dev' = dev)
       \<or> (\<exists>rv. r = Returned rv \<and> rv < 0 \<and> limit_sem dev' = limit_sem dev
              \<and> submitted dev' = submitted dev)
       \<or> (0 < count \<and> r = Returned (ssize_t_of_size_t writesize)
              \<and> limit_sem dev' + 1 = limit_sem dev
              \<and> submitted dev' = submitted dev @
                   [\<lparr>transfer_buffer = take writesize user_buffer,
                     transfer_buffer_length = writesize\<rparr>]
              \<and> writesize \<le> length user_buffer)"
proof (cases "count = 0")
  case True
  then show ?thesis using assms by (simp add: ugci_write_def Let_def)
next
  case False
  note pos = False
  show ?thesis
  proof (cases "limit_sem dev = 0")
    case True
    then show ?thesis using assms pos
      by (auto simp: ugci_write_def Let_def errno_defs split: if_splits)
  next
    case False
    then have "ugci_write_admitted (dev\<lparr>limit_sem := limit_sem dev - 1\<rparr>)
                 user_buffer writesize urb_ok buf_ok e = (r, dev')"
      using assms pos by (auto simp: ugci_write_def Let_def split: if_splits)
    from ugci_write_admitted_cases [OF this] False pos show ?thesis
      by auto
  qed
qed


lemmas op_defs = ugci_read_def ugci_read_deliver_def ugci_do_read_io_def ugci_write_def
  ugci_write_admitted_def ugci_write_error_def ugci_write_check_def usb_free_coherent_def ugci_flush_def ugci_draw_down_def
  usb_kill_anchored_urbs_def usb_kill_urb_in_def usb_giveback_in_def usb_giveback_out_def
  ugci_read_bulk_callback_def ugci_write_bulk_callback_def ugci_disconnect_def kref_put_def
  ugci_delete_def ugci_suspend_def ugci_resume_def ugci_pre_reset_def ugci_post_reset_def
  ugci_open_def ugci_release_def ugci_probe_def usb_endpoint_maxp_def kmalloc_def
  copy_from_user_def copy_to_user_def MAX_TRANSFER_def size_t_sub_def size_t_add_def
  ssize_t_of_size_t_def int_of_size_t_def WRITES_IN_FLIGHT_def run_def Let_def


section \<open>Writing: what a successful call accepts\<close>

text \<open>
  Claim C7. A write call of a positive length that returns without an error returns
  \<open>writesize\<close>, the smaller of the length and \<open>MAX_TRANSFER\<close>; the request it has put on
  the anchor carries the first \<open>writesize\<close> bytes of the caller's data and nothing else;
  the call returns while the request is in flight, still holding its permit. A write call
  of length 0 returns 0 and changes nothing. (The page size is such that \<open>MAX_TRANSFER\<close>
  fits the return type.)
\<close>

theorem ugci_write_accepts:
  assumes "MAX_TRANSFER ps < 2 ^ 63"
    and "writesize = min count (MAX_TRANSFER ps)"
    and "0 < count"
    and "ugci_write ps dev user_buffer count nonblock signal urb_ok buf_ok e = (Returned rv, dev')"
    and "0 \<le> rv"
  shows "rv = int writesize
       \<and> submitted dev' = submitted dev @
             [\<lparr>transfer_buffer = take writesize user_buffer,
               transfer_buffer_length = writesize\<rparr>]
       \<and> length (take writesize user_buffer) = writesize
       \<and> limit_sem dev' + 1 = limit_sem dev
       \<and> ugci_write ps dev user_buffer' 0 nonblock' signal' urb_ok' buf_ok' e' = (Returned 0, dev)"
proof -
  have "writesize < 2 ^ 63" using assms(1,2) by simp
  then have conv: "ssize_t_of_size_t writesize = int writesize"
    by (rule ssize_t_of_size_t_eq)
  have zero: "ugci_write ps dev user_buffer' 0 nonblock' signal' urb_ok' buf_ok' e' = (Returned 0, dev)"
    by (simp add: ugci_write_def)
  from ugci_write_cases [OF assms(4,2)] assms(3,5) conv zero show ?thesis
    by auto
qed

theorem ugci_write_accepts_witness:
  "ugci_write 4096
      \<lparr>interface = True, limit_sem = 8, submitted = [], bulk_in_urb = True,
       bulk_in_flight = [], bulk_in_submits = 0, bulk_in_buffer = [0, 0], bulk_in_size = 2,
       bulk_in_filled = 0, bulk_in_copied = 0, errors = 0, ongoing_read = False, kref = 1,
       freed = False, coherent = [], intfdata = True\<rparr>
      (replicate 4000 7) 4000 False False True True 0
    = (Returned 3584,
      \<lparr>interface = True, limit_sem = 7,
       submitted = [\<lparr>transfer_buffer = replicate 3584 7, transfer_buffer_length = 3584\<rparr>],
       bulk_in_urb = True,
       bulk_in_flight = [], bulk_in_submits = 0, bulk_in_buffer = [0, 0], bulk_in_size = 2,
       bulk_in_filled = 0, bulk_in_copied = 0, errors = 0, ongoing_read = False, kref = 1,
       freed = False, coherent = [replicate 3584 7], intfdata = True\<rparr>)
   \<and> (3584 :: int) = int (min 4000 (MAX_TRANSFER 4096))
   \<and> take (min 4000 (MAX_TRANSFER 4096)) (replicate 4000 (7 :: byte)) = replicate 3584 7"
proof -
  let ?dev = "\<lparr>interface = True, limit_sem = 8, submitted = [], bulk_in_urb = True,
       bulk_in_flight = [], bulk_in_submits = 0, bulk_in_buffer = [0, 0 :: byte], bulk_in_size = 2,
       bulk_in_filled = 0, bulk_in_copied = 0, errors = 0, ongoing_read = False, kref = 1,
       freed = False, coherent = [], intfdata = True\<rparr>"
  let ?dev' = "\<lparr>interface = True, limit_sem = 7,
       submitted = [\<lparr>transfer_buffer = replicate 3584 (7 :: byte), transfer_buffer_length = 3584\<rparr>],
       bulk_in_urb = True,
       bulk_in_flight = [], bulk_in_submits = 0, bulk_in_buffer = [0, 0 :: byte], bulk_in_size = 2,
       bulk_in_filled = 0, bulk_in_copied = 0, errors = 0, ongoing_read = False, kref = 1,
       freed = False, coherent = [replicate 3584 (7)], intfdata = True\<rparr>"
  have mt: "MAX_TRANSFER 4096 = 3584" by (simp add: MAX_TRANSFER_def size_t_sub_def)
  have res: "ugci_write 4096 ?dev (replicate 4000 7) 4000 False False True True 0
               = (Returned 3584, ?dev')"
    by (simp add: op_defs errno_defs)
  have "(3584 :: int) = int (min 4000 (MAX_TRANSFER 4096))
       \<and> submitted ?dev' = submitted ?dev @
             [\<lparr>transfer_buffer = take (min 4000 (MAX_TRANSFER 4096)) (replicate 4000 7),
               transfer_buffer_length = min 4000 (MAX_TRANSFER 4096)\<rparr>]
       \<and> length (take (min 4000 (MAX_TRANSFER 4096)) (replicate 4000 (7::byte)))
             = min 4000 (MAX_TRANSFER 4096)
       \<and> limit_sem ?dev' + 1 = limit_sem ?dev
       \<and> ugci_write 4096 ?dev [] 0 False False True True 0 = (Returned 0, ?dev)"
    by (rule ugci_write_accepts [OF _ refl _ res]) (simp_all add: mt)
  with res show ?thesis by simp
qed


section \<open>Writing: the bound on requests in flight\<close>

text \<open>
  The staging buffers: every operation leaves as many copies of a buffer handed out as
  there are write requests in flight that carry it.
\<close>

lemma count_list_remove1:
  "count_list (remove1 x xs) y = (if x = y then count_list xs y - 1 else count_list xs y)"
  by (induction xs) auto

lemma count_list_without_nth:
  assumes "i < length xs"
  shows "count_list (take i xs @ drop (Suc i) xs) y
           = (if xs ! i = y then count_list xs y - 1 else count_list xs y)"
proof -
  have "count_list xs y = count_list (take i xs @ xs ! i # drop (Suc i) xs) y"
    using id_take_nth_drop [OF assms] by simp
  then show ?thesis by simp
qed

lemma staging_inv_iff:
  "staging_inv dev \<longleftrightarrow>
     (\<forall>b. count_list (coherent dev) b = count_list (map transfer_buffer (submitted dev)) b)"
proof
  assume inv: "staging_inv dev"
  show "\<forall>b. count_list (coherent dev) b = count_list (map transfer_buffer (submitted dev)) b"
  proof
    fix b
    show "count_list (coherent dev) b = count_list (map transfer_buffer (submitted dev)) b"
    proof (cases "b \<in> set (coherent dev) \<union> set (map transfer_buffer (submitted dev))")
      case True
      then show ?thesis using inv unfolding staging_inv_def by blast
    next
      case False
      then show ?thesis by simp
    qed
  qed
next
  assume "\<forall>b. count_list (coherent dev) b = count_list (map transfer_buffer (submitted dev)) b"
  then show "staging_inv dev" by (simp add: staging_inv_def)
qed

lemma staging_frame:
  "coherent dev' = coherent dev \<Longrightarrow> submitted dev' = submitted dev \<Longrightarrow>
     staging_inv dev \<Longrightarrow> staging_inv dev'"
  by (simp add: staging_inv_def)

lemma giveback_out_coherent:
  assumes "usb_giveback_out dev i st = Some dev'"
  shows "i < length (submitted dev)
       \<and> submitted dev' = take i (submitted dev) @ drop (Suc i) (submitted dev)
       \<and> coherent dev' = remove1 (transfer_buffer (submitted dev ! i)) (coherent dev)
       \<and> limit_sem dev' = limit_sem dev + 1"
  using assms
  by (auto simp: usb_giveback_out_def ugci_write_bulk_callback_def usb_free_coherent_def
        Let_def split: if_splits)

lemma staging_giveback_out:
  assumes "staging_inv dev" "usb_giveback_out dev i st = Some dev'"
  shows "staging_inv dev'"
proof -
  note g = giveback_out_coherent [OF assms(2)]
  have i: "i < length (map transfer_buffer (submitted dev))" using g by simp
  have m: "map transfer_buffer (submitted dev')
             = take i (map transfer_buffer (submitted dev))
               @ drop (Suc i) (map transfer_buffer (submitted dev))"
    using g by (simp add: take_map drop_map)
  have n: "map transfer_buffer (submitted dev) ! i = transfer_buffer (submitted dev ! i)"
    using g by simp
  show ?thesis
    unfolding staging_inv_iff m
    using assms(1) g count_list_without_nth [OF i] n
    by (simp add: staging_inv_iff count_list_remove1)
qed

lemma giveback_in_coherent:
  "usb_giveback_in dev st data = Some dev' \<Longrightarrow>
     coherent dev' = coherent dev \<and> submitted dev' = submitted dev"
  by (auto simp: usb_giveback_in_def ugci_read_bulk_callback_def Let_def split: list.splits)

lemma do_read_io_coherent:
  "coherent (snd (ugci_do_read_io dev count e)) = coherent dev
   \<and> submitted (snd (ugci_do_read_io dev count e)) = submitted dev"
  by (simp add: ugci_do_read_io_def Let_def)

lemma deliver_coherent:
  "coherent (snd (snd (ugci_read_deliver dev w count e))) = coherent dev
   \<and> submitted (snd (snd (ugci_read_deliver dev w count e))) = submitted dev"
  by (simp add: ugci_read_deliver_def Let_def do_read_io_coherent split: prod.splits)

lemma staging_write_check: "staging_inv dev \<Longrightarrow> staging_inv (snd (ugci_write_check dev))"
  by (simp add: ugci_write_check_def Let_def staging_inv_def)

lemma staging_race_with: "staging_inv dev \<Longrightarrow> staging_inv (race_with dev r)"
proof (induction r arbitrary: dev)
  case Nil
  then show ?case by simp
next
  case (Cons x r)
  show ?case
  proof (cases x)
    case Racing_check
    then show ?thesis using Cons by (simp add: staging_write_check)
  next
    case (Racing_done i e)
    then show ?thesis
      using Cons by (auto split: option.splits dest: staging_giveback_out)
  qed
qed

lemma staging_read_retry:
  "staging_inv dev \<Longrightarrow>
     staging_inv (snd (snd (ugci_read_retry dev writable count nonblock waits subs race)))"
proof (rule ugci_read_retry_preserves [where P = staging_inv], goal_cases)
  case 1
  then show ?case .
next
  case (2 d st data d')
  then show ?case using giveback_in_coherent [of d st data d'] by (simp add: staging_inv_def)
next
  case (3 d c e)
  then show ?case using do_read_io_coherent [of d c e] by (simp add: staging_inv_def)
next
  case (4 d w c e)
  then show ?case using deliver_coherent [of d w c e] by (simp add: staging_inv_def)
next
  case (5 d r)
  then have "staging_inv (race_with d r)" by (simp add: staging_race_with)
  then show ?case by (simp add: staging_inv_def)
qed


lemma ugci_write_admitted_staging:
  assumes "ugci_write_admitted dev user_buffer writesize urb_ok buf_ok e = (r, dev')"
  shows "(submitted dev' = submitted dev
          \<and> (\<forall>b. count_list (coherent dev') b = count_list (coherent dev) b))
       \<or> (submitted dev' = submitted dev @
                [\<lparr>transfer_buffer = take writesize user_buffer,
                  transfer_buffer_length = writesize\<rparr>]
          \<and> coherent dev' = coherent dev @ [take writesize user_buffer])"
  using assms
  by (auto simp: ugci_write_admitted_def ugci_write_error_def ugci_write_check_def
        usb_free_coherent_def copy_from_user_def count_list_remove1 Let_def
        split: if_splits)

lemma ugci_write_staging:
  assumes "ugci_write ps dev user_buffer count nonblock signal urb_ok buf_ok e = (r, dev')"
    and "writesize = min count (MAX_TRANSFER ps)"
  shows "(submitted dev' = submitted dev
          \<and> (\<forall>b. count_list (coherent dev') b = count_list (coherent dev) b))
       \<or> (submitted dev' = submitted dev @
                [\<lparr>transfer_buffer = take writesize user_buffer,
                  transfer_buffer_length = writesize\<rparr>]
          \<and> coherent dev' = coherent dev @ [take writesize user_buffer])"
proof (cases "count = 0 \<or> limit_sem dev = 0")
  case True
  then show ?thesis using assms by (auto simp: ugci_write_def Let_def split: if_splits)
next
  case False
  then have "ugci_write_admitted (dev\<lparr>limit_sem := limit_sem dev - 1\<rparr>)
               user_buffer writesize urb_ok buf_ok e = (r, dev')"
    using assms by (auto simp: ugci_write_def Let_def split: if_splits)
  from ugci_write_admitted_staging [OF this] show ?thesis by simp
qed

lemma staging_write:
  assumes "staging_inv dev"
  shows "staging_inv (snd (ugci_write ps dev user_buffer count nonblock signal urb_ok buf_ok e))"
proof -
  obtain r dev' where w: "ugci_write ps dev user_buffer count nonblock signal urb_ok buf_ok e
                            = (r, dev')"
    by (cases "ugci_write ps dev user_buffer count nonblock signal urb_ok buf_ok e")
  from ugci_write_staging [OF w refl] assms have "staging_inv dev'"
    by (auto simp: staging_inv_iff)
  then show ?thesis using w by simp
qed

lemma staging_giveback_in:
  "staging_inv dev \<Longrightarrow> usb_giveback_in dev st data = Some dev' \<Longrightarrow> staging_inv dev'"
  using giveback_in_coherent [of dev st data dev'] by (simp add: staging_inv_def)

lemma staging_wait_anchor:
  "staging_inv dev \<Longrightarrow> staging_inv (usb_wait_anchor_empty_timeout dev done)"
  by (induction dev "done" rule: usb_wait_anchor_empty_timeout.induct)
     (auto split: option.splits dest: staging_giveback_out)

lemma staging_kill_anchored: "staging_inv dev \<Longrightarrow> staging_inv (kill_anchored n dev)"
  by (induction n arbitrary: dev) (auto split: option.splits dest: staging_giveback_out)

lemma staging_kill_in: "staging_inv dev \<Longrightarrow> staging_inv (kill_in n dev)"
  by (induction n arbitrary: dev) (auto split: option.splits dest: staging_giveback_in)

lemma staging_draw_down: "staging_inv dev \<Longrightarrow> staging_inv (ugci_draw_down dev done)"
  by (simp add: ugci_draw_down_def usb_kill_anchored_urbs_def usb_kill_urb_in_def Let_def
        staging_wait_anchor staging_kill_anchored staging_kill_in)

lemma staging_kref_put: "staging_inv dev \<Longrightarrow> staging_inv (kref_put dev)"
  by (simp add: staging_inv_def kref_put_def ugci_delete_def)

lemma staging_errors: "staging_inv dev \<Longrightarrow> staging_inv (dev\<lparr>errors := x\<rparr>)"
  by (simp add: staging_inv_def)

lemma staging_step: "staging_inv dev \<Longrightarrow> staging_inv (step ps dev ev)"
proof (cases ev)
  case (Open found e)
  assume "staging_inv dev"
  then show ?thesis using Open by (simp add: ugci_open_def staging_inv_def)
next
  case (Read writable count nonblock lock_intr waits subs race)
  assume "staging_inv dev"
  then show ?thesis using Read by (simp add: ugci_read_def staging_read_retry)
next
  case Disconnect
  assume "staging_inv dev"
  then have "staging_inv (dev\<lparr>intfdata := False, interface := False\<rparr>)"
    by (simp add: staging_inv_def)
  then show ?thesis using Disconnect
    by (simp add: ugci_disconnect_def usb_kill_anchored_urbs_def Let_def
          staging_kref_put staging_kill_anchored)
qed (auto simp: ugci_release_def ugci_flush_def ugci_suspend_def ugci_resume_def
       ugci_pre_reset_def ugci_post_reset_def Let_def
       intro: staging_write staging_draw_down staging_errors staging_kref_put
       dest: staging_giveback_in staging_giveback_out split: option.splits)

lemma staging_run: "staging_inv dev \<Longrightarrow> staging_inv (run ps dev evs)"
  unfolding run_def by (induction evs arbitrary: dev) (simp_all add: staging_step)

lemma staging_probe:
  "ugci_probe find_e wMaxPacketSize heap urb_ok register_e = Inr dev \<Longrightarrow> staging_inv dev"
  by (auto simp: ugci_probe_def Let_def staging_inv_def split: if_splits option.splits)


text \<open>
  Claim C4. In every state that a probed device reaches, the write requests in flight and
  the free permits add up to \<open>WRITES_IN_FLIGHT\<close>, so at most that many requests are in
  flight, and the staging buffers handed out are those of the requests in flight. A write
  call that returns an error leaves the permits, the anchor and the staging buffers as it
  found them; one that succeeds keeps one permit and one staging buffer for the one request
  it has submitted. The completion of a request, whatever its status, takes it off the
  anchor, and the handler frees its staging buffer, which was handed out until then, and
  returns one permit.
\<close>

theorem writes_in_flight_bounded:
  assumes "ugci_probe find_e wMaxPacketSize heap urb_ok0 register_e = Inr dev0"
    and "dev = run ps dev0 evs"
    and "MAX_TRANSFER ps < 2 ^ 63"
    and "ugci_write ps dev user_buffer count nonblock signal urb_ok buf_ok e = (r, dev')"
  shows "length (submitted dev) \<le> WRITES_IN_FLIGHT
       \<and> limit_sem dev + length (submitted dev) = WRITES_IN_FLIGHT
       \<and> (\<forall>b. count_list (coherent dev) b
                = count_list (map transfer_buffer (submitted dev)) b)
       \<and> (\<forall>rv. r = Returned rv \<and> rv < 0 \<longrightarrow>
             limit_sem dev' = limit_sem dev \<and> submitted dev' = submitted dev
             \<and> (\<forall>b. count_list (coherent dev') b = count_list (coherent dev) b))
       \<and> (\<forall>rv. r = Returned rv \<and> 0 \<le> rv \<and> 0 < count \<longrightarrow>
             limit_sem dev' + 1 = limit_sem dev
             \<and> length (submitted dev') = length (submitted dev) + 1
             \<and> coherent dev' = coherent dev @ [transfer_buffer (last (submitted dev'))])
       \<and> (\<forall>i st. i < length (submitted dev) \<longrightarrow>
             (\<exists>d. usb_giveback_out dev i st = Some d \<and> limit_sem d = limit_sem dev + 1
                  \<and> length (submitted d) + 1 = length (submitted dev)
                  \<and> transfer_buffer (submitted dev ! i) \<in> set (coherent dev)
                  \<and> coherent d = remove1 (transfer_buffer (submitted dev ! i)) (coherent dev)))
       \<and> (\<forall>d u st. limit_sem (ugci_write_bulk_callback d u st) = limit_sem d + 1
             \<and> coherent (ugci_write_bulk_callback d u st)
                 = remove1 (transfer_buffer u) (coherent d)
             \<and> submitted (ugci_write_bulk_callback d u st) = submitted d)"
proof -
  have "dev_inv dev"
    using assms(1,2) by (simp add: inv_probe inv_run)
  then have sem: "limit_sem dev + length (submitted dev) = WRITES_IN_FLIGHT"
    by (simp add: dev_inv_def permits_inv_def)
  then have bound: "length (submitted dev) \<le> WRITES_IN_FLIGHT"
    by simp
  have "staging_inv dev"
    using assms(1,2) by (simp add: staging_probe staging_run)
  then have stg: "\<forall>b. count_list (coherent dev) b
                     = count_list (map transfer_buffer (submitted dev)) b"
    by (simp add: staging_inv_iff)
  let ?writesize = "min count (MAX_TRANSFER ps)"
  have "?writesize < 2 ^ 63" using assms(3) by simp
  then have conv: "0 \<le> ssize_t_of_size_t ?writesize"
    by (simp add: ssize_t_of_size_t_eq)
  note cases = ugci_write_cases [OF assms(4) refl]
  note stag = ugci_write_staging [OF assms(4) refl]
  have fail: "limit_sem dev' = limit_sem dev \<and> submitted dev' = submitted dev
                \<and> (\<forall>b. count_list (coherent dev') b = count_list (coherent dev) b)"
    if "r = Returned rv" "rv < 0" for rv
  proof -
    have a: "limit_sem dev' = limit_sem dev \<and> submitted dev' = submitted dev"
      using cases that conv by auto
    then have "\<forall>b. count_list (coherent dev') b = count_list (coherent dev) b"
      using stag by auto
    with a show ?thesis by simp
  qed
  have ok: "limit_sem dev' + 1 = limit_sem dev
              \<and> length (submitted dev') = length (submitted dev) + 1
              \<and> coherent dev' = coherent dev @ [transfer_buffer (last (submitted dev'))]"
    if "r = Returned rv" "0 \<le> rv" "0 < count" for rv
  proof -
    have a: "limit_sem dev' + 1 = limit_sem dev
               \<and> length (submitted dev') = length (submitted dev) + 1"
      using cases that by auto
    then have "submitted dev' \<noteq> submitted dev" by auto
    then have "coherent dev' = coherent dev @ [transfer_buffer (last (submitted dev'))]"
      using stag by auto
    with a show ?thesis by simp
  qed
  have compl: "\<exists>d. usb_giveback_out dev i st = Some d \<and> limit_sem d = limit_sem dev + 1
                  \<and> length (submitted d) + 1 = length (submitted dev)
                  \<and> transfer_buffer (submitted dev ! i) \<in> set (coherent dev)
                  \<and> coherent d = remove1 (transfer_buffer (submitted dev ! i)) (coherent dev)"
    if i: "i < length (submitted dev)" for i st
  proof -
    obtain d where d: "usb_giveback_out dev i st = Some d"
      using i by (simp add: usb_giveback_out_def)
    note g = giveback_out_coherent [OF d]
    have "transfer_buffer (submitted dev ! i) \<in> set (map transfer_buffer (submitted dev))"
      using i by simp
    then have "count_list (map transfer_buffer (submitted dev))
                 (transfer_buffer (submitted dev ! i)) \<noteq> 0"
      by (simp only: count_list_0_iff not_not)
    then have "count_list (coherent dev) (transfer_buffer (submitted dev ! i)) \<noteq> 0"
      using stg by simp
    then have "transfer_buffer (submitted dev ! i) \<in> set (coherent dev)"
      by (simp add: count_list_0_iff)
    then show ?thesis using d g i by simp
  qed
  have cb: "limit_sem (ugci_write_bulk_callback d u st) = limit_sem d + 1
             \<and> coherent (ugci_write_bulk_callback d u st)
                 = remove1 (transfer_buffer u) (coherent d)
             \<and> submitted (ugci_write_bulk_callback d u st) = submitted d" for d u st
    by (simp add: ugci_write_bulk_callback_def usb_free_coherent_def Let_def)
  show ?thesis
    using sem bound stg fail ok compl cb by blast
qed

theorem writes_in_flight_bounded_witness:
  "ugci_probe 0 4 (Some [9, 9, 9, 9]) True 0 = Inr
      \<lparr>interface = True, limit_sem = 8, submitted = [], bulk_in_urb = True,
       bulk_in_flight = [], bulk_in_submits = 0, bulk_in_buffer = [9, 9, 9, 9],
       bulk_in_size = 4, bulk_in_filled = 0, bulk_in_copied = 0, errors = 0,
       ongoing_read = False, kref = 1, freed = False, coherent = [], intfdata = True\<rparr>
   \<and> length (submitted (run 4096
      \<lparr>interface = True, limit_sem = 8, submitted = [], bulk_in_urb = True,
       bulk_in_flight = [], bulk_in_submits = 0, bulk_in_buffer = [9, 9, 9, 9],
       bulk_in_size = 4, bulk_in_filled = 0, bulk_in_copied = 0, errors = 0,
       ongoing_read = False, kref = 1, freed = False, coherent = [], intfdata = True\<rparr>
       [Write [1] 1 False False True True 0, Write [2] 1 False False True True 0,
        Write [3] 1 False False True True 0, Write [4] 1 False False True True 0,
        Write [5] 1 False False True True 0, Write [6] 1 False False True True 0,
        Write [7] 1 False False True True 0, Write [8] 1 False False True True 0])) = 8
   \<and> limit_sem (run 4096
      \<lparr>interface = True, limit_sem = 8, submitted = [], bulk_in_urb = True,
       bulk_in_flight = [], bulk_in_submits = 0, bulk_in_buffer = [9, 9, 9, 9],
       bulk_in_size = 4, bulk_in_filled = 0, bulk_in_copied = 0, errors = 0,
       ongoing_read = False, kref = 1, freed = False, coherent = [], intfdata = True\<rparr>
       [Write [1] 1 False False True True 0, Write [2] 1 False False True True 0,
        Write [3] 1 False False True True 0, Write [4] 1 False False True True 0,
        Write [5] 1 False False True True 0, Write [6] 1 False False True True 0,
        Write [7] 1 False False True True 0, Write [8] 1 False False True True 0]) = 0
   \<and> coherent (run 4096
      \<lparr>interface = True, limit_sem = 8, submitted = [], bulk_in_urb = True,
       bulk_in_flight = [], bulk_in_submits = 0, bulk_in_buffer = [9, 9, 9, 9],
       bulk_in_size = 4, bulk_in_filled = 0, bulk_in_copied = 0, errors = 0,
       ongoing_read = False, kref = 1, freed = False, coherent = [], intfdata = True\<rparr>
       [Write [1] 1 False False True True 0, Write [2] 1 False False True True 0,
        Write [3] 1 False False True True 0, Write [4] 1 False False True True 0,
        Write [5] 1 False False True True 0, Write [6] 1 False False True True 0,
        Write [7] 1 False False True True 0, Write [8] 1 False False True True 0]) = [[1], [2], [3], [4], [5], [6], [7], [8]]
   \<and> fst (ugci_write 4096 (run 4096
      \<lparr>interface = True, limit_sem = 8, submitted = [], bulk_in_urb = True,
       bulk_in_flight = [], bulk_in_submits = 0, bulk_in_buffer = [9, 9, 9, 9],
       bulk_in_size = 4, bulk_in_filled = 0, bulk_in_copied = 0, errors = 0,
       ongoing_read = False, kref = 1, freed = False, coherent = [], intfdata = True\<rparr>
       [Write [1] 1 False False True True 0, Write [2] 1 False False True True 0,
        Write [3] 1 False False True True 0, Write [4] 1 False False True True 0,
        Write [5] 1 False False True True 0, Write [6] 1 False False True True 0,
        Write [7] 1 False False True True 0, Write [8] 1 False False True True 0]) [9] 1 True False True True 0) = Returned (- EAGAIN)
   \<and> fst (ugci_write 4096 (run 4096
      \<lparr>interface = True, limit_sem = 8, submitted = [], bulk_in_urb = True,
       bulk_in_flight = [], bulk_in_submits = 0, bulk_in_buffer = [9, 9, 9, 9],
       bulk_in_size = 4, bulk_in_filled = 0, bulk_in_copied = 0, errors = 0,
       ongoing_read = False, kref = 1, freed = False, coherent = [], intfdata = True\<rparr>
       [Write [1] 1 False False True True 0, Write [2] 1 False False True True 0,
        Write [3] 1 False False True True 0, Write [4] 1 False False True True 0,
        Write [5] 1 False False True True 0, Write [6] 1 False False True True 0,
        Write [7] 1 False False True True 0, Write [8] 1 False False True True 0]) [9] 1 False False True True 0) = Blocked
   \<and> (\<exists>d. usb_giveback_out (run 4096
      \<lparr>interface = True, limit_sem = 8, submitted = [], bulk_in_urb = True,
       bulk_in_flight = [], bulk_in_submits = 0, bulk_in_buffer = [9, 9, 9, 9],
       bulk_in_size = 4, bulk_in_filled = 0, bulk_in_copied = 0, errors = 0,
       ongoing_read = False, kref = 1, freed = False, coherent = [], intfdata = True\<rparr>
       [Write [1] 1 False False True True 0, Write [2] 1 False False True True 0,
        Write [3] 1 False False True True 0, Write [4] 1 False False True True 0,
        Write [5] 1 False False True True 0, Write [6] 1 False False True True 0,
        Write [7] 1 False False True True 0, Write [8] 1 False False True True 0]) 3 (- EPIPE) = Some d \<and> limit_sem d = 1
          \<and> length (submitted d) = 7
          \<and> coherent d = [[1], [2], [3], [5], [6], [7], [8]])"
proof -
  let ?d0 = "\<lparr>interface = True, limit_sem = 8, submitted = [], bulk_in_urb = True,
       bulk_in_flight = [], bulk_in_submits = 0, bulk_in_buffer = [9, 9, 9, 9 :: byte],
       bulk_in_size = 4, bulk_in_filled = 0, bulk_in_copied = 0, errors = 0,
       ongoing_read = False, kref = 1, freed = False, coherent = [], intfdata = True\<rparr>"
  let ?evs = "[Write [1] 1 False False True True 0, Write [2] 1 False False True True 0,
        Write [3] 1 False False True True 0, Write [4] 1 False False True True 0,
        Write [5] 1 False False True True 0, Write [6] 1 False False True True 0,
        Write [7] 1 False False True True 0, Write [8] 1 False False True True 0]"
  let ?dev = "run 4096 ?d0 ?evs"
  have probe: "ugci_probe 0 4 (Some [9, 9, 9, 9]) True 0 = Inr ?d0"
    by (simp add: ugci_probe_def usb_endpoint_maxp_def kmalloc_def WRITES_IN_FLIGHT_def Let_def)
  have mt: "MAX_TRANSFER 4096 < 2 ^ 63" by (simp add: MAX_TRANSFER_def size_t_sub_def)
  have sem: "limit_sem ?dev = 0" and len: "length (submitted ?dev) = 8"
    and coh: "coherent ?dev = [[1], [2], [3], [4], [5], [6], [7], [8]]"
    and nth: "transfer_buffer (submitted ?dev ! 3) = [4]"
    by (simp_all add: op_defs errno_defs)
  have nb: "fst (ugci_write 4096 ?dev [9] 1 True False True True 0) = Returned (- EAGAIN)"
    and bl: "fst (ugci_write 4096 ?dev [9] 1 False False True True 0) = Blocked"
    using sem by (simp_all add: ugci_write_def Let_def)
  note t = writes_in_flight_bounded [OF probe refl mt prod.collapse [symmetric],
      where user_buffer = "[9]" and count = 1 and nonblock = True and signal = False
        and urb_ok = True and buf_ok = True and e = 0]
  have "3 < length (submitted ?dev)" using len by simp
  with t have "\<exists>d. usb_giveback_out ?dev 3 (- EPIPE) = Some d
                  \<and> limit_sem d = limit_sem ?dev + 1
                  \<and> length (submitted d) + 1 = length (submitted ?dev)
                  \<and> transfer_buffer (submitted ?dev ! 3) \<in> set (coherent ?dev)
                  \<and> coherent d = remove1 (transfer_buffer (submitted ?dev ! 3)) (coherent ?dev)"
    by blast
  then have "\<exists>d. usb_giveback_out ?dev 3 (- EPIPE) = Some d \<and> limit_sem d = 1
                  \<and> length (submitted d) = 7
                  \<and> coherent d = [[1], [2], [3], [5], [6], [7], [8]]"
    unfolding sem len coh nth by simp
  with probe sem len coh nb bl show ?thesis by blast
qed


section \<open>Reading: one inbound transfer at a time\<close>

lemma ugci_do_read_io_fails:
  assumes "0 < e"
  shows "\<not> ongoing_read (snd (ugci_do_read_io dev count e))
       \<and> bulk_in_flight (snd (ugci_do_read_io dev count e)) = bulk_in_flight dev
       \<and> fst (ugci_do_read_io dev count e) < 0"
  using assms by (simp add: ugci_do_read_io_def Let_def errno_defs)

lemma ugci_do_read_io_accepted:
  "ongoing_read (snd (ugci_do_read_io dev count 0))
   \<and> bulk_in_flight (snd (ugci_do_read_io dev count 0))
       = bulk_in_flight dev @ [min (bulk_in_size dev) count]"
  by (simp add: ugci_do_read_io_def Let_def)

text \<open>
  Claim C6. In every state that a probed device reaches at most one inbound transfer is in
  flight, and \<open>ongoing_read\<close> is set exactly when one is. A read call that finds
  \<open>ongoing_read\<close> set touches nothing until it is cleared: without \<open>O_NONBLOCK\<close> it sleeps,
  and goes on after the completion has cleared the flag, or returns \<open>-ERESTARTSYS\<close> on a
  signal; with \<open>O_NONBLOCK\<close> it returns \<open>-EAGAIN\<close>. An accepted submission sets the flag
  with one transfer in flight; a refused one leaves the flag cleared and nothing in flight.
\<close>

theorem single_inbound_transfer:
  assumes "ugci_probe find_e wMaxPacketSize heap urb_ok register_e = Inr dev0"
    and "dev = run ps dev0 evs"
  shows "length (bulk_in_flight dev) \<le> 1
       \<and> (ongoing_read dev \<longleftrightarrow> length (bulk_in_flight dev) = 1)
       \<and> (ongoing_read dev \<and> bulk_in_urb dev \<and> 0 < count \<and> interface dev \<longrightarrow>
            ugci_read dev writable count True False waits subs race = (Returned (- EAGAIN), [], dev)
          \<and> ugci_read dev writable count False False [] subs race = (Blocked, [], dev)
          \<and> ugci_read dev writable count False False (Signal # waits) subs race
                = (Returned (- ERESTARTSYS), [], dev)
          \<and> (\<exists>d. usb_giveback_in dev (- int e) data = Some d
                 \<and> \<not> ongoing_read d \<and> bulk_in_flight d = []
                 \<and> ugci_read dev writable count False False (Completion e data # waits) subs race
                     = ugci_read_retry d writable count False waits subs race))
       \<and> (\<not> ongoing_read dev \<longrightarrow>
            ongoing_read (snd (ugci_do_read_io dev count' 0))
          \<and> length (bulk_in_flight (snd (ugci_do_read_io dev count' 0))) = 1)
       \<and> (0 < e' \<longrightarrow>
            \<not> ongoing_read (snd (ugci_do_read_io dev count' e'))
          \<and> bulk_in_flight (snd (ugci_do_read_io dev count' e')) = bulk_in_flight dev
          \<and> fst (ugci_do_read_io dev count' e') < 0)"
proof -
  have "dev_inv dev"
    using assms by (simp add: inv_probe inv_run)
  then have len: "length (bulk_in_flight dev) = (if ongoing_read dev then 1 else 0)"
    by (simp add: dev_inv_def read_inv_def)
  have a: "length (bulk_in_flight dev) \<le> 1" and b: "ongoing_read dev \<longleftrightarrow> length (bulk_in_flight dev) = 1"
    using len by (simp_all split: if_splits)
  have c: "ugci_read dev writable count True False waits subs race = (Returned (- EAGAIN), [], dev)
          \<and> ugci_read dev writable count False False [] subs race = (Blocked, [], dev)
          \<and> ugci_read dev writable count False False (Signal # waits) subs race
                = (Returned (- ERESTARTSYS), [], dev)
          \<and> (\<exists>d. usb_giveback_in dev (- int e) data = Some d
                 \<and> \<not> ongoing_read d \<and> bulk_in_flight d = []
                 \<and> ugci_read dev writable count False False (Completion e data # waits) subs race
                     = ugci_read_retry d writable count False waits subs race)"
    if on: "ongoing_read dev" and pre: "bulk_in_urb dev" "0 < count" "interface dev"
  proof -
    obtain len' where fl: "bulk_in_flight dev = [len']"
      using len on by (cases "bulk_in_flight dev") auto
    obtain d where d: "usb_giveback_in dev (- int e) data = Some d"
      using fl by (simp add: usb_giveback_in_def Let_def)
    have d': "\<not> ongoing_read d" "bulk_in_flight d = []"
      using d fl by (auto simp: usb_giveback_in_def ugci_read_bulk_callback_def Let_def)
    show ?thesis
      using on pre d d' by (simp add: ugci_read_def retry_simps)
  qed
  have d: "ongoing_read (snd (ugci_do_read_io dev count' 0))
          \<and> length (bulk_in_flight (snd (ugci_do_read_io dev count' 0))) = 1"
    if "\<not> ongoing_read dev"
    using that len by (simp add: ugci_do_read_io_accepted)
  show ?thesis
    using a b c d ugci_do_read_io_fails [of e' dev count'] by blast
qed

theorem single_inbound_transfer_witness:
  "ugci_probe 0 4 (Some [9, 9, 9, 9]) True 0 = Inr
      \<lparr>interface = True, limit_sem = 8, submitted = [], bulk_in_urb = True,
       bulk_in_flight = [], bulk_in_submits = 0, bulk_in_buffer = [9, 9, 9, 9],
       bulk_in_size = 4, bulk_in_filled = 0, bulk_in_copied = 0, errors = 0,
       ongoing_read = False, kref = 1, freed = False, coherent = [], intfdata = True\<rparr>
   \<and> run 4096
      \<lparr>interface = True, limit_sem = 8, submitted = [], bulk_in_urb = True,
       bulk_in_flight = [], bulk_in_submits = 0, bulk_in_buffer = [9, 9, 9, 9],
       bulk_in_size = 4, bulk_in_filled = 0, bulk_in_copied = 0, errors = 0,
       ongoing_read = False, kref = 1, freed = False, coherent = [], intfdata = True\<rparr>
      [Read 10 10 True False [] [] []]
     = \<lparr>interface = True, limit_sem = 8, submitted = [], bulk_in_urb = True,
       bulk_in_flight = [4], bulk_in_submits = 1, bulk_in_buffer = [9, 9, 9, 9],
       bulk_in_size = 4, bulk_in_filled = 0, bulk_in_copied = 0, errors = 0,
       ongoing_read = True, kref = 1, freed = False, coherent = [], intfdata = True\<rparr>
   \<and> ugci_read
      \<lparr>interface = True, limit_sem = 8, submitted = [], bulk_in_urb = True,
       bulk_in_flight = [4], bulk_in_submits = 1, bulk_in_buffer = [9, 9, 9, 9],
       bulk_in_size = 4, bulk_in_filled = 0, bulk_in_copied = 0, errors = 0,
       ongoing_read = True, kref = 1, freed = False, coherent = [], intfdata = True\<rparr>
      10 10 True False [] [] [] = (Returned (- EAGAIN), [],
      \<lparr>interface = True, limit_sem = 8, submitted = [], bulk_in_urb = True,
       bulk_in_flight = [4], bulk_in_submits = 1, bulk_in_buffer = [9, 9, 9, 9],
       bulk_in_size = 4, bulk_in_filled = 0, bulk_in_copied = 0, errors = 0,
       ongoing_read = True, kref = 1, freed = False, coherent = [], intfdata = True\<rparr>)
   \<and> ugci_read
      \<lparr>interface = True, limit_sem = 8, submitted = [], bulk_in_urb = True,
       bulk_in_flight = [4], bulk_in_submits = 1, bulk_in_buffer = [9, 9, 9, 9],
       bulk_in_size = 4, bulk_in_filled = 0, bulk_in_copied = 0, errors = 0,
       ongoing_read = True, kref = 1, freed = False, coherent = [], intfdata = True\<rparr>
      10 10 False False [] [] [] = (Blocked, [],
      \<lparr>interface = True, limit_sem = 8, submitted = [], bulk_in_urb = True,
       bulk_in_flight = [4], bulk_in_submits = 1, bulk_in_buffer = [9, 9, 9, 9],
       bulk_in_size = 4, bulk_in_filled = 0, bulk_in_copied = 0, errors = 0,
       ongoing_read = True, kref = 1, freed = False, coherent = [], intfdata = True\<rparr>)
   \<and> \<not> ongoing_read (snd (ugci_do_read_io
      \<lparr>interface = True, limit_sem = 8, submitted = [], bulk_in_urb = True,
       bulk_in_flight = [], bulk_in_submits = 0, bulk_in_buffer = [9, 9, 9, 9],
       bulk_in_size = 4, bulk_in_filled = 0, bulk_in_copied = 0, errors = 0,
       ongoing_read = False, kref = 1, freed = False, coherent = [], intfdata = True\<rparr> 10 5))"
proof -
  let ?d0 = "\<lparr>interface = True, limit_sem = 8, submitted = [], bulk_in_urb = True,
       bulk_in_flight = [], bulk_in_submits = 0, bulk_in_buffer = [9, 9, 9, 9 :: byte],
       bulk_in_size = 4, bulk_in_filled = 0, bulk_in_copied = 0, errors = 0,
       ongoing_read = False, kref = 1, freed = False, coherent = [], intfdata = True\<rparr>"
  let ?d1 = "\<lparr>interface = True, limit_sem = 8, submitted = [], bulk_in_urb = True,
       bulk_in_flight = [4], bulk_in_submits = 1, bulk_in_buffer = [9, 9, 9, 9 :: byte],
       bulk_in_size = 4, bulk_in_filled = 0, bulk_in_copied = 0, errors = 0,
       ongoing_read = True, kref = 1, freed = False, coherent = [], intfdata = True\<rparr>"
  have probe: "ugci_probe 0 4 (Some [9, 9, 9, 9]) True 0 = Inr ?d0"
    by (simp add: ugci_probe_def usb_endpoint_maxp_def kmalloc_def WRITES_IN_FLIGHT_def Let_def)
  have run1: "run 4096 ?d0 [Read 10 10 True False [] [] []] = ?d1"
    by (simp add: op_defs errno_defs retry_simps)
  have run0: "run 4096 ?d0 [] = ?d0"
    by (simp add: run_def)
  note t1 = single_inbound_transfer [OF probe run1 [symmetric], where writable = 10
      and count = 10 and waits = "[]" and subs = "[]" and race = "[]" and e = 0 and data = "[]"
      and count' = 10 and e' = 5]
  note t0 = single_inbound_transfer [OF probe run0 [symmetric], where writable = 10
      and count = 10 and waits = "[]" and subs = "[]" and race = "[]" and e = 0 and data = "[]"
      and count' = 10 and e' = 5]
  have "ugci_read ?d1 10 10 True False [] [] [] = (Returned (- EAGAIN), [], ?d1)"
    and "ugci_read ?d1 10 10 False False [] [] [] = (Blocked, [], ?d1)"
    using t1 by simp_all
  moreover have "\<not> ongoing_read (snd (ugci_do_read_io ?d0 10 5))"
    using t0 by simp
  ultimately show ?thesis using probe run1 by simp
qed


section \<open>Reading: the offsets into the receive buffer\<close>

text \<open>
  No operation takes the consumed offset back, except by submitting the inbound request.
\<close>

lemma no_rewind_refl: "no_rewind d d"
  by (simp add: no_rewind_def)

lemma no_rewind_trans: "no_rewind a b \<Longrightarrow> no_rewind b c \<Longrightarrow> no_rewind a c"
  by (auto simp: no_rewind_def)

lemma no_rewind_same:
  "bulk_in_submits d' = bulk_in_submits d \<Longrightarrow> bulk_in_copied d' = bulk_in_copied d \<Longrightarrow>
     no_rewind d d'"
  by (simp add: no_rewind_def)

lemma rewind_giveback_in:
  "usb_giveback_in dev st data = Some dev' \<Longrightarrow> no_rewind dev dev'"
  by (auto simp: usb_giveback_in_def ugci_read_bulk_callback_def Let_def no_rewind_def
           split: list.splits)

lemma rewind_giveback_out:
  "usb_giveback_out dev i st = Some dev' \<Longrightarrow> no_rewind dev dev'"
  by (auto simp: usb_giveback_out_def ugci_write_bulk_callback_def Let_def no_rewind_def
           split: if_splits)

lemma rewind_do_read_io: "no_rewind dev (snd (ugci_do_read_io dev count e))"
  by (simp add: ugci_do_read_io_def Let_def no_rewind_def)

lemma rewind_deliver:
  assumes "dev_inv dev"
  shows "no_rewind dev (snd (snd (ugci_read_deliver dev w count e)))"
proof -
  have le: "bulk_in_copied dev \<le> bulk_in_filled dev" and lt: "bulk_in_filled dev < 2 ^ 64"
    using assms by (auto simp: dev_inv_def buffer_inv_def)
  show ?thesis
    unfolding ugci_read_deliver_eq [OF le lt refl refl]
    by (simp add: no_rewind_def ugci_do_read_io_def Let_def)
qed

lemma rewind_write_check: "no_rewind dev (snd (ugci_write_check dev))"
  by (simp add: ugci_write_check_def Let_def no_rewind_def)

lemma rewind_race_with: "no_rewind dev (race_with dev r)"
proof (induction r arbitrary: dev)
  case Nil
  show ?case by (simp add: no_rewind_refl)
next
  case (Cons x r)
  show ?case
  proof (cases x)
    case Racing_check
    then show ?thesis
      using Cons [of "snd (ugci_write_check dev)"] rewind_write_check [of dev]
      by (simp add: no_rewind_trans [of dev "snd (ugci_write_check dev)"])
  next
    case (Racing_done i e)
    show ?thesis
    proof (cases "usb_giveback_out dev i (- int e)")
      case None
      then show ?thesis using Racing_done Cons [of dev] by simp
    next
      case (Some dev')
      then show ?thesis
        using Racing_done Cons [of dev'] rewind_giveback_out [OF Some]
        by (simp add: no_rewind_trans [of dev dev'])
    qed
  qed
qed

lemma rewind_read_retry:
  assumes "dev_inv dev"
  shows "no_rewind dev (snd (snd (ugci_read_retry dev writable count nonblock waits subs race)))"
proof -
  have "dev_inv (snd (snd (ugci_read_retry dev writable count nonblock waits subs race)))
      \<and> no_rewind dev (snd (snd (ugci_read_retry dev writable count nonblock waits subs race)))"
  proof (rule ugci_read_retry_preserves [where P = "\<lambda>d. dev_inv d \<and> no_rewind dev d"], goal_cases)
    case 1
    show ?case using assms by (simp add: no_rewind_refl)
  next
    case (2 d st data d')
    then show ?case
      by (blast intro: inv_giveback_in no_rewind_trans rewind_giveback_in)
  next
    case (3 d c e)
    then show ?case
      by (blast intro: inv_do_read_io no_rewind_trans rewind_do_read_io)
  next
    case (4 d w c e)
    then show ?case
      by (blast intro: inv_deliver no_rewind_trans rewind_deliver)
  next
    case (5 d r)
    then have "no_rewind dev (race_with d r)"
      using rewind_race_with [of d r] by (blast intro: no_rewind_trans)
    then have "no_rewind dev ((race_with d r)\<lparr>errors := 0\<rparr>)"
      by (simp add: no_rewind_def)
    moreover have "dev_inv ((race_with d r)\<lparr>errors := 0\<rparr>)"
      using 5 by (simp add: inv_errors inv_race_with)
    ultimately show ?case by simp
  qed
  then show ?thesis by simp
qed

lemma rewind_write:
  "no_rewind dev (snd (ugci_write ps dev user_buffer count nonblock signal urb_ok buf_ok e))"
  by (auto simp: ugci_write_def ugci_write_admitted_def ugci_write_error_def
        ugci_write_check_def Let_def no_rewind_def split: prod.splits)

lemma rewind_wait_anchor: "no_rewind dev (usb_wait_anchor_empty_timeout dev done)"
proof (induction dev "done" rule: usb_wait_anchor_empty_timeout.induct)
  case (1 dev)
  show ?case by (simp add: no_rewind_refl)
next
  case (2 dev i e "done")
  show ?case
  proof (cases "usb_giveback_out dev i (- int e)")
    case None
    then show ?thesis using "2.IH"(1) by simp
  next
    case (Some dev')
    then show ?thesis
      using "2.IH"(2) [OF Some] rewind_giveback_out [OF Some]
      by (simp add: no_rewind_trans [of dev dev'])
  qed
qed

lemma rewind_kill_anchored: "no_rewind dev (kill_anchored n dev)"
proof (induction n arbitrary: dev)
  case 0
  show ?case by (simp add: no_rewind_refl)
next
  case (Suc n)
  show ?case
  proof (cases "usb_giveback_out dev (length (submitted dev) - 1) (- ENOENT)")
    case None
    then show ?thesis by (simp add: no_rewind_refl)
  next
    case (Some dev')
    then show ?thesis
      using Suc.IH [of dev'] rewind_giveback_out [OF Some]
      by (simp add: no_rewind_trans [of dev dev'])
  qed
qed

lemma rewind_kill_in: "no_rewind dev (kill_in n dev)"
proof (induction n arbitrary: dev)
  case 0
  show ?case by (simp add: no_rewind_refl)
next
  case (Suc n)
  show ?case
  proof (cases "usb_giveback_in dev (- ENOENT) []")
    case None
    then show ?thesis by (simp add: no_rewind_refl)
  next
    case (Some dev')
    then show ?thesis
      using Suc.IH [of dev'] rewind_giveback_in [OF Some]
      by (simp add: no_rewind_trans [of dev dev'])
  qed
qed

lemma rewind_draw_down: "no_rewind dev (ugci_draw_down dev done)"
proof -
  let ?d1 = "usb_wait_anchor_empty_timeout dev done"
  let ?d2 = "if submitted ?d1 \<noteq> [] then usb_kill_anchored_urbs ?d1 else ?d1"
  have 1: "no_rewind dev ?d1" by (rule rewind_wait_anchor)
  have 2: "no_rewind ?d1 ?d2"
    by (simp add: usb_kill_anchored_urbs_def rewind_kill_anchored no_rewind_refl)
  have 3: "no_rewind ?d2 (usb_kill_urb_in ?d2)"
    unfolding usb_kill_urb_in_def by (rule rewind_kill_in)
  have "ugci_draw_down dev done = usb_kill_urb_in ?d2"
    by (simp add: ugci_draw_down_def Let_def)
  then show ?thesis
    using no_rewind_trans [OF no_rewind_trans [OF 1 2] 3] by simp
qed

lemma rewind_kref_put: "no_rewind dev (kref_put dev)"
  by (simp add: kref_put_def ugci_delete_def no_rewind_def)



lemma rewind_errors: "no_rewind dev d \<Longrightarrow> no_rewind dev (d\<lparr>errors := x\<rparr>)"
  by (simp add: no_rewind_def)

lemma rewind_step:
  assumes "dev_inv dev"
  shows "no_rewind dev (step ps dev ev)"
proof (cases ev)
  case (Open found e)
  then show ?thesis by (simp add: ugci_open_def no_rewind_def)
next
  case Release
  then show ?thesis by (simp add: ugci_release_def rewind_kref_put)
next
  case (Read writable count nonblock lock_intr waits subs race)
  then show ?thesis
    using rewind_read_retry [OF assms] by (simp add: ugci_read_def no_rewind_refl)
next
  case (Write user_buffer count nonblock signal urb_ok buf_ok e)
  then show ?thesis by (simp add: rewind_write)
next
  case (Flush d)
  then show ?thesis
    by (simp add: ugci_flush_def Let_def rewind_errors rewind_draw_down)
next
  case (ReadDone e data)
  then show ?thesis
    by (cases "usb_giveback_in dev (- int e) data")
       (simp_all add: no_rewind_refl rewind_giveback_in)
next
  case (WriteDone i e)
  then show ?thesis
    by (cases "usb_giveback_out dev i (- int e)")
       (simp_all add: no_rewind_refl rewind_giveback_out)
next
  case (Suspend d)
  then show ?thesis by (simp add: ugci_suspend_def rewind_draw_down no_rewind_refl)
next
  case Resume
  then show ?thesis by (simp add: ugci_resume_def no_rewind_refl)
next
  case (Reset d)
  then show ?thesis
    by (simp add: ugci_pre_reset_def ugci_post_reset_def rewind_errors rewind_draw_down
          no_rewind_refl)
next
  case Disconnect
  have 1: "no_rewind dev (dev\<lparr>intfdata := False, interface := False\<rparr>)"
    by (simp add: no_rewind_def)
  have 2: "no_rewind (dev\<lparr>intfdata := False, interface := False\<rparr>)
             (usb_kill_anchored_urbs (dev\<lparr>intfdata := False, interface := False\<rparr>))"
    unfolding usb_kill_anchored_urbs_def by (rule rewind_kill_anchored)
  have 3: "no_rewind (usb_kill_anchored_urbs (dev\<lparr>intfdata := False, interface := False\<rparr>))
             (kref_put (usb_kill_anchored_urbs (dev\<lparr>intfdata := False, interface := False\<rparr>)))"
    by (rule rewind_kref_put)
  show ?thesis
    using Disconnect no_rewind_trans [OF no_rewind_trans [OF 1 2] 3]
    by (simp add: ugci_disconnect_def Let_def)
qed

lemma ugci_read_deliver_unread:
  assumes "bulk_in_copied dev \<le> bulk_in_filled dev" "bulk_in_filled dev < 2 ^ 64"
  shows "fst (snd (ugci_read_deliver dev writable count e))
           = take writable (take count (unread dev))"
    and "unread (snd (snd (ugci_read_deliver dev writable count e))) = drop count (unread dev)"
proof -
  note eq = ugci_read_deliver_eq [OF assms refl refl, where count = count
      and writable = writable and e = e]
  show "fst (snd (ugci_read_deliver dev writable count e))
           = take writable (take count (unread dev))"
    by (simp add: eq take_chunk_unread)
  show "unread (snd (snd (ugci_read_deliver dev writable count e))) = drop count (unread dev)"
  proof (cases "bulk_in_filled dev - bulk_in_copied dev < count")
    case True
    have "length (unread dev) \<le> bulk_in_filled dev - bulk_in_copied dev"
      by (simp add: unread_def)
    then have "drop count (unread dev) = []"
      using True by simp
    then show ?thesis
      unfolding eq using True by (simp add: ugci_do_read_io_unread)
  next
    case False
    then show ?thesis
      unfolding eq by (simp add: unread_def add.commute)
  qed
qed

text \<open>
  Claim C5. In every state that a probed device reaches, \<open>bulk_in_copied\<close> is at most
  \<open>bulk_in_filled\<close>, which is at most the size of the receive buffer. An operation during
  which the inbound request is not submitted does not decrease \<open>bulk_in_copied\<close>. The one
  place that copies to the caller hands over unread bytes only, which start at the
  consumed offset, and afterwards they are no longer unread; a read call that finds no
  transfer under way, no error pending and unread bytes goes there at once.
\<close>

theorem buffer_offsets:
  assumes "ugci_probe find_e wMaxPacketSize heap urb_ok register_e = Inr dev0"
    and "dev = run ps dev0 evs"
  shows "bulk_in_copied dev \<le> bulk_in_filled dev
       \<and> bulk_in_filled dev \<le> bulk_in_size dev
       \<and> length (bulk_in_buffer dev) = bulk_in_size dev
       \<and> (bulk_in_submits (step ps dev ev) = bulk_in_submits dev \<longrightarrow>
            bulk_in_copied dev \<le> bulk_in_copied (step ps dev ev))
       \<and> fst (snd (ugci_read_deliver dev writable count e))
            = take writable (take count (unread dev))
       \<and> unread (snd (snd (ugci_read_deliver dev writable count e))) = drop count (unread dev)
       \<and> (bulk_in_urb dev \<and> 0 < count \<and> interface dev \<and> \<not> ongoing_read dev
            \<and> \<not> errors dev < 0 \<and> bulk_in_copied dev < bulk_in_filled dev \<longrightarrow>
            ugci_read dev writable count nonblock False waits subs race
              = ugci_read_deliver dev writable count (next_errno subs))"
proof -
  have inv: "dev_inv dev"
    using assms by (simp add: inv_probe inv_run)
  then have b: "bulk_in_copied dev \<le> bulk_in_filled dev" "bulk_in_filled dev \<le> bulk_in_size dev"
    "length (bulk_in_buffer dev) = bulk_in_size dev" "bulk_in_size dev < 2048"
    by (simp_all add: dev_inv_def buffer_inv_def)
  then have lt: "bulk_in_filled dev < 2 ^ 64" by simp
  have mono: "bulk_in_copied dev \<le> bulk_in_copied (step ps dev ev)"
    if "bulk_in_submits (step ps dev ev) = bulk_in_submits dev"
    using rewind_step [OF inv, of ps ev] that by (simp add: no_rewind_def)
  have rd: "ugci_read dev writable count nonblock False waits subs race
              = ugci_read_deliver dev writable count (next_errno subs)"
    if "bulk_in_urb dev" "0 < count" "interface dev" "\<not> ongoing_read dev"
       "\<not> errors dev < 0" "bulk_in_copied dev < bulk_in_filled dev"
    using that lt by (intro ugci_read_available) simp_all
  show ?thesis
    using b(1-3) mono rd ugci_read_deliver_unread [OF b(1) lt] by blast
qed

theorem buffer_offsets_witness:
  "ugci_probe 0 4 (Some [9, 9, 9, 9]) True 0 = Inr
      \<lparr>interface = True, limit_sem = 8, submitted = [], bulk_in_urb = True,
       bulk_in_flight = [], bulk_in_submits = 0, bulk_in_buffer = [9, 9, 9, 9],
       bulk_in_size = 4, bulk_in_filled = 0, bulk_in_copied = 0, errors = 0,
       ongoing_read = False, kref = 1, freed = False, coherent = [], intfdata = True\<rparr>
   \<and> run 4096
      \<lparr>interface = True, limit_sem = 8, submitted = [], bulk_in_urb = True,
       bulk_in_flight = [], bulk_in_submits = 0, bulk_in_buffer = [9, 9, 9, 9],
       bulk_in_size = 4, bulk_in_filled = 0, bulk_in_copied = 0, errors = 0,
       ongoing_read = False, kref = 1, freed = False, coherent = [], intfdata = True\<rparr>
      [Read 10 10 True False [] [] [], ReadDone 0 [5, 6, 7]]
     = \<lparr>interface = True, limit_sem = 8, submitted = [], bulk_in_urb = True,
       bulk_in_flight = [], bulk_in_submits = 1, bulk_in_buffer = [5, 6, 7, 9],
       bulk_in_size = 4, bulk_in_filled = 3, bulk_in_copied = 0, errors = 0,
       ongoing_read = False, kref = 1, freed = False, coherent = [], intfdata = True\<rparr>
   \<and> ugci_read
      \<lparr>interface = True, limit_sem = 8, submitted = [], bulk_in_urb = True,
       bulk_in_flight = [], bulk_in_submits = 1, bulk_in_buffer = [5, 6, 7, 9],
       bulk_in_size = 4, bulk_in_filled = 3, bulk_in_copied = 0, errors = 0,
       ongoing_read = False, kref = 1, freed = False, coherent = [], intfdata = True\<rparr>
      10 2 False False [] [] [] = (Returned 2, [5, 6],
      \<lparr>interface = True, limit_sem = 8, submitted = [], bulk_in_urb = True,
       bulk_in_flight = [], bulk_in_submits = 1, bulk_in_buffer = [5, 6, 7, 9],
       bulk_in_size = 4, bulk_in_filled = 3, bulk_in_copied = 2, errors = 0,
       ongoing_read = False, kref = 1, freed = False, coherent = [], intfdata = True\<rparr>)
   \<and> unread
      \<lparr>interface = True, limit_sem = 8, submitted = [], bulk_in_urb = True,
       bulk_in_flight = [], bulk_in_submits = 1, bulk_in_buffer = [5, 6, 7, 9],
       bulk_in_size = 4, bulk_in_filled = 3, bulk_in_copied = 2, errors = 0,
       ongoing_read = False, kref = 1, freed = False, coherent = [], intfdata = True\<rparr> = [7]"
proof -
  let ?d0 = "\<lparr>interface = True, limit_sem = 8, submitted = [], bulk_in_urb = True,
       bulk_in_flight = [], bulk_in_submits = 0, bulk_in_buffer = [9, 9, 9, 9 :: byte],
       bulk_in_size = 4, bulk_in_filled = 0, bulk_in_copied = 0, errors = 0,
       ongoing_read = False, kref = 1, freed = False, coherent = [], intfdata = True\<rparr>"
  let ?d1 = "\<lparr>interface = True, limit_sem = 8, submitted = [], bulk_in_urb = True,
       bulk_in_flight = [], bulk_in_submits = 1, bulk_in_buffer = [5, 6, 7, 9 :: byte],
       bulk_in_size = 4, bulk_in_filled = 3, bulk_in_copied = 0, errors = 0,
       ongoing_read = False, kref = 1, freed = False, coherent = [], intfdata = True\<rparr>"
  let ?d2 = "\<lparr>interface = True, limit_sem = 8, submitted = [], bulk_in_urb = True,
       bulk_in_flight = [], bulk_in_submits = 1, bulk_in_buffer = [5, 6, 7, 9 :: byte],
       bulk_in_size = 4, bulk_in_filled = 3, bulk_in_copied = 2, errors = 0,
       ongoing_read = False, kref = 1, freed = False, coherent = [], intfdata = True\<rparr>"
  have probe: "ugci_probe 0 4 (Some [9, 9, 9, 9]) True 0 = Inr ?d0"
    by (simp add: ugci_probe_def usb_endpoint_maxp_def kmalloc_def WRITES_IN_FLIGHT_def Let_def)
  have run1: "run 4096 ?d0 [Read 10 10 True False [] [] [], ReadDone 0 [5, 6, 7]] = ?d1"
    by (simp add: op_defs errno_defs retry_simps)
  note t = buffer_offsets [OF probe run1 [symmetric], where ev = "Read 10 2 False False [] [] []"
      and writable = 10 and count = 2 and e = 0 and nonblock = False and waits = "[]"
      and subs = "[]"]
  have "ugci_read ?d1 10 2 False False [] [] [] = ugci_read_deliver ?d1 10 2 0"
    using t by simp
  then have rd: "ugci_read ?d1 10 2 False False [] [] [] = (Returned 2, [5, 6], ?d2)"
    by (simp add: op_defs)
  have "unread ?d2 = [7]" by (simp add: unread_def)
  with probe run1 rd show ?thesis by simp
qed


section \<open>Draining and flushing\<close>

text \<open>
  After \<open>ugci_draw_down\<close> nothing is in flight, and on a device with nothing in flight it
  does nothing.
\<close>

lemma giveback_out_length:
  "usb_giveback_out dev i st = Some dev' \<Longrightarrow>
     Suc (length (submitted dev')) = length (submitted dev)
     \<and> bulk_in_flight dev' = bulk_in_flight dev"
  by (auto simp: usb_giveback_out_def ugci_write_bulk_callback_def Let_def split: if_splits)

lemma giveback_in_length:
  "usb_giveback_in dev st data = Some dev' \<Longrightarrow>
     Suc (length (bulk_in_flight dev')) = length (bulk_in_flight dev)
     \<and> submitted dev' = submitted dev"
  by (auto simp: usb_giveback_in_def ugci_read_bulk_callback_def Let_def split: list.splits)

lemma kill_anchored_empties:
  "length (submitted dev) = n \<Longrightarrow> submitted (kill_anchored n dev) = []"
proof (induction n arbitrary: dev)
  case 0
  then show ?case by simp
next
  case (Suc n)
  then have "length (submitted dev) - 1 < length (submitted dev)" by simp
  then obtain dev' where g: "usb_giveback_out dev (length (submitted dev) - 1) (- ENOENT) = Some dev'"
    by (simp add: usb_giveback_out_def)
  then have "length (submitted dev') = n"
    using giveback_out_length [OF g] Suc.prems by simp
  then show ?case using g Suc.IH by simp
qed

lemma kill_in_empties:
  "length (bulk_in_flight dev) = n \<Longrightarrow> bulk_in_flight (kill_in n dev) = []"
proof (induction n arbitrary: dev)
  case 0
  then show ?case by simp
next
  case (Suc n)
  then obtain len rest where "bulk_in_flight dev = len # rest"
    by (cases "bulk_in_flight dev") auto
  then obtain dev' where g: "usb_giveback_in dev (- ENOENT) [] = Some dev'"
    by (simp add: usb_giveback_in_def Let_def)
  then have "length (bulk_in_flight dev') = n"
    using giveback_in_length [OF g] Suc.prems by simp
  then show ?case using g Suc.IH by simp
qed

lemma kill_in_submitted: "submitted (kill_in n dev) = submitted dev"
proof (induction n arbitrary: dev)
  case 0
  show ?case by simp
next
  case (Suc n)
  show ?case
  proof (cases "usb_giveback_in dev (- ENOENT) []")
    case None
    then show ?thesis by simp
  next
    case (Some dev')
    then show ?thesis using Suc.IH [of dev'] giveback_in_length [OF Some] by simp
  qed
qed

lemma ugci_draw_down_drains:
  "submitted (ugci_draw_down dev done) = [] \<and> bulk_in_flight (ugci_draw_down dev done) = []"
  by (simp add: ugci_draw_down_def usb_kill_anchored_urbs_def usb_kill_urb_in_def Let_def
        kill_in_submitted kill_in_empties kill_anchored_empties)

lemma wait_anchor_idle:
  "submitted dev = [] \<Longrightarrow> usb_wait_anchor_empty_timeout dev done = dev"
  by (induction dev "done" rule: usb_wait_anchor_empty_timeout.induct)
     (simp_all add: usb_giveback_out_def)

lemma ugci_draw_down_idle:
  "submitted dev = [] \<Longrightarrow> bulk_in_flight dev = [] \<Longrightarrow> ugci_draw_down dev done = dev"
  by (simp add: ugci_draw_down_def usb_kill_urb_in_def Let_def wait_anchor_idle)

text \<open>
  Claim C8. \<open>ugci_flush\<close> drains the device first; what it returns is the error code that
  the drained device holds: 0 for none, \<open>-EPIPE\<close> for \<open>-EPIPE\<close>, and \<open>-EIO\<close> for any other
  code. It clears the code in the same call and leaves nothing in flight, so a second
  flush right after it returns 0 and changes nothing.
\<close>

theorem ugci_flush_reports_once:
  "fst (ugci_flush dev done)
     = (if errors (ugci_draw_down dev done) = 0 then 0
        else if errors (ugci_draw_down dev done) = - EPIPE then - EPIPE else - EIO)
   \<and> snd (ugci_flush dev done) = (ugci_draw_down dev done)\<lparr>errors := 0\<rparr>
   \<and> submitted (snd (ugci_flush dev done)) = []
   \<and> bulk_in_flight (snd (ugci_flush dev done)) = []
   \<and> ugci_flush (snd (ugci_flush dev done)) done' = (0, snd (ugci_flush dev done))"
proof -
  let ?d = "(ugci_draw_down dev done)\<lparr>errors := 0\<rparr>"
  have s: "snd (ugci_flush dev done) = ?d"
    by (simp add: ugci_flush_def Let_def)
  have e: "submitted ?d = []" "bulk_in_flight ?d = []"
    using ugci_draw_down_drains [of dev "done"] by simp_all
  have "ugci_draw_down ?d done' = ?d"
    using e by (rule ugci_draw_down_idle)
  then have "ugci_flush ?d done' = (0, ?d)"
    by (simp add: ugci_flush_def Let_def)
  then show ?thesis
    using e unfolding s by (simp add: ugci_flush_def Let_def)
qed


theorem ugci_flush_reports_once_witness:
  "ugci_flush
      \<lparr>interface = True, limit_sem = 7,
       submitted = [\<lparr>transfer_buffer = [1, 2], transfer_buffer_length = 2\<rparr>],
       bulk_in_urb = True, bulk_in_flight = [], bulk_in_submits = 0,
       bulk_in_buffer = [9, 9, 9, 9], bulk_in_size = 4, bulk_in_filled = 0,
       bulk_in_copied = 0, errors = 0, ongoing_read = False, kref = 2, freed = False, coherent = [[1, 2]], intfdata = True\<rparr>
      [(0, 32)]
     = (- EPIPE,
      \<lparr>interface = True, limit_sem = 8, submitted = [],
       bulk_in_urb = True, bulk_in_flight = [], bulk_in_submits = 0,
       bulk_in_buffer = [9, 9, 9, 9], bulk_in_size = 4, bulk_in_filled = 0,
       bulk_in_copied = 0, errors = 0, ongoing_read = False, kref = 2, freed = False, coherent = [], intfdata = True\<rparr>)
   \<and> ugci_flush
      \<lparr>interface = True, limit_sem = 7,
       submitted = [\<lparr>transfer_buffer = [1, 2], transfer_buffer_length = 2\<rparr>],
       bulk_in_urb = True, bulk_in_flight = [], bulk_in_submits = 0,
       bulk_in_buffer = [9, 9, 9, 9], bulk_in_size = 4, bulk_in_filled = 0,
       bulk_in_copied = 0, errors = 0, ongoing_read = False, kref = 2, freed = False, coherent = [[1, 2]], intfdata = True\<rparr>
      [(0, 71)]
     = (- EIO,
      \<lparr>interface = True, limit_sem = 8, submitted = [],
       bulk_in_urb = True, bulk_in_flight = [], bulk_in_submits = 0,
       bulk_in_buffer = [9, 9, 9, 9], bulk_in_size = 4, bulk_in_filled = 0,
       bulk_in_copied = 0, errors = 0, ongoing_read = False, kref = 2, freed = False, coherent = [], intfdata = True\<rparr>)
   \<and> ugci_flush
      \<lparr>interface = True, limit_sem = 8, submitted = [],
       bulk_in_urb = True, bulk_in_flight = [], bulk_in_submits = 0,
       bulk_in_buffer = [9, 9, 9, 9], bulk_in_size = 4, bulk_in_filled = 0,
       bulk_in_copied = 0, errors = 0, ongoing_read = False, kref = 2, freed = False, coherent = [], intfdata = True\<rparr>
      []
     = (0,
      \<lparr>interface = True, limit_sem = 8, submitted = [],
       bulk_in_urb = True, bulk_in_flight = [], bulk_in_submits = 0,
       bulk_in_buffer = [9, 9, 9, 9], bulk_in_size = 4, bulk_in_filled = 0,
       bulk_in_copied = 0, errors = 0, ongoing_read = False, kref = 2, freed = False, coherent = [], intfdata = True\<rparr>)"
proof -
  let ?dE = "\<lparr>interface = True, limit_sem = 7,
       submitted = [\<lparr>transfer_buffer = [1, 2 :: byte], transfer_buffer_length = 2\<rparr>],
       bulk_in_urb = True, bulk_in_flight = [], bulk_in_submits = 0,
       bulk_in_buffer = [9, 9, 9, 9 :: byte], bulk_in_size = 4, bulk_in_filled = 0,
       bulk_in_copied = 0, errors = 0, ongoing_read = False, kref = 2, freed = False, coherent = [[1, 2]], intfdata = True\<rparr>"
  let ?dF = "\<lparr>interface = True, limit_sem = 8, submitted = [],
       bulk_in_urb = True, bulk_in_flight = [], bulk_in_submits = 0,
       bulk_in_buffer = [9, 9, 9, 9 :: byte], bulk_in_size = 4, bulk_in_filled = 0,
       bulk_in_copied = 0, errors = 0, ongoing_read = False, kref = 2, freed = False, coherent = [], intfdata = True\<rparr>"
  have 1: "ugci_flush ?dE [(0, 32)] = (- EPIPE, ?dF)"
    and 2: "ugci_flush ?dE [(0, 71)] = (- EIO, ?dF)"
    by (simp_all add: op_defs errno_defs)
  have "ugci_flush (snd (ugci_flush ?dE [(0, 32)])) [] = (0, snd (ugci_flush ?dE [(0, 32)]))"
    using ugci_flush_reports_once [of ?dE "[(0, 32)]" "[]"] by blast
  then have "ugci_flush ?dF [] = (0, ?dF)"
    unfolding 1 by simp
  with 1 2 show ?thesis by simp
qed


section \<open>Errors of completed transfers\<close>


lemma giveback_in_errors:
  "0 < e \<Longrightarrow> usb_giveback_in d (- int e) data = Some dev \<Longrightarrow> errors dev = - int e"
  by (auto simp: usb_giveback_in_def ugci_read_bulk_callback_def Let_def split: list.splits)

lemma giveback_out_errors:
  "0 < e \<Longrightarrow> usb_giveback_out d i (- int e) = Some dev \<Longrightarrow> errors dev = - int e"
  by (auto simp: usb_giveback_out_def ugci_write_bulk_callback_def Let_def split: if_splits)










text \<open>
  \<open>ugci_read\<close> tests and clears \<open>errors\<close> without \<open>err_lock\<close>, which \<open>ugci_write\<close> and the
  completion handlers hold around theirs. A write call whose check runs between the load and
  the store of the read call returns the same code as the read call; a code recorded by a
  completion there is cleared by the store and returned by nobody.
\<close>

lemma unlocked_check_in_read:
  "ugci_write_check
      \<lparr>interface = True, limit_sem = 7, submitted = [\<lparr>transfer_buffer = [1], transfer_buffer_length = 1\<rparr>],
       bulk_in_urb = True, bulk_in_flight = [], bulk_in_submits = 0,
       bulk_in_buffer = [9, 9, 9, 9 :: byte], bulk_in_size = 4,
       bulk_in_filled = 0, bulk_in_copied = 0, errors = - 32,
       ongoing_read = False, kref = 2, freed = False, coherent = [[1]],
       intfdata = True\<rparr>
      = (- EPIPE,
      \<lparr>interface = True, limit_sem = 7, submitted = [\<lparr>transfer_buffer = [1], transfer_buffer_length = 1\<rparr>],
       bulk_in_urb = True, bulk_in_flight = [], bulk_in_submits = 0,
       bulk_in_buffer = [9, 9, 9, 9 :: byte], bulk_in_size = 4,
       bulk_in_filled = 0, bulk_in_copied = 0, errors = 0,
       ongoing_read = False, kref = 2, freed = False, coherent = [[1]],
       intfdata = True\<rparr>)
   \<and> ugci_read
      \<lparr>interface = True, limit_sem = 7, submitted = [\<lparr>transfer_buffer = [1], transfer_buffer_length = 1\<rparr>],
       bulk_in_urb = True, bulk_in_flight = [], bulk_in_submits = 0,
       bulk_in_buffer = [9, 9, 9, 9 :: byte], bulk_in_size = 4,
       bulk_in_filled = 0, bulk_in_copied = 0, errors = - 32,
       ongoing_read = False, kref = 2, freed = False, coherent = [[1]],
       intfdata = True\<rparr>
      10 10 True False [] [] [Racing_check] = (Returned (- EPIPE), [],
      \<lparr>interface = True, limit_sem = 7, submitted = [\<lparr>transfer_buffer = [1], transfer_buffer_length = 1\<rparr>],
       bulk_in_urb = True, bulk_in_flight = [], bulk_in_submits = 0,
       bulk_in_buffer = [9, 9, 9, 9 :: byte], bulk_in_size = 4,
       bulk_in_filled = 0, bulk_in_copied = 0, errors = 0,
       ongoing_read = False, kref = 2, freed = False, coherent = [[1]],
       intfdata = True\<rparr>)
   \<and> race_with
      \<lparr>interface = True, limit_sem = 7, submitted = [\<lparr>transfer_buffer = [1], transfer_buffer_length = 1\<rparr>],
       bulk_in_urb = True, bulk_in_flight = [], bulk_in_submits = 0,
       bulk_in_buffer = [9, 9, 9, 9 :: byte], bulk_in_size = 4,
       bulk_in_filled = 0, bulk_in_copied = 0, errors = - 32,
       ongoing_read = False, kref = 2, freed = False, coherent = [[1]],
       intfdata = True\<rparr>
      [Racing_done 0 71] =
      \<lparr>interface = True, limit_sem = 8, submitted = [],
       bulk_in_urb = True, bulk_in_flight = [], bulk_in_submits = 0,
       bulk_in_buffer = [9, 9, 9, 9 :: byte], bulk_in_size = 4,
       bulk_in_filled = 0, bulk_in_copied = 0, errors = - 71,
       ongoing_read = False, kref = 2, freed = False, coherent = [],
       intfdata = True\<rparr>
   \<and> ugci_read
      \<lparr>interface = True, limit_sem = 7, submitted = [\<lparr>transfer_buffer = [1], transfer_buffer_length = 1\<rparr>],
       bulk_in_urb = True, bulk_in_flight = [], bulk_in_submits = 0,
       bulk_in_buffer = [9, 9, 9, 9 :: byte], bulk_in_size = 4,
       bulk_in_filled = 0, bulk_in_copied = 0, errors = - 32,
       ongoing_read = False, kref = 2, freed = False, coherent = [[1]],
       intfdata = True\<rparr>
      10 10 True False [] [] [Racing_done 0 71] = (Returned (- EPIPE), [],
      \<lparr>interface = True, limit_sem = 8, submitted = [],
       bulk_in_urb = True, bulk_in_flight = [], bulk_in_submits = 0,
       bulk_in_buffer = [9, 9, 9, 9 :: byte], bulk_in_size = 4,
       bulk_in_filled = 0, bulk_in_copied = 0, errors = 0,
       ongoing_read = False, kref = 2, freed = False, coherent = [],
       intfdata = True\<rparr>)"
  by (simp add: op_defs errno_defs retry_simps)

section \<open>Cancelled transfers\<close>

text \<open>
  Claim C1. A cancelled transfer completes with \<open>-ENOENT\<close>, \<open>-ECONNRESET\<close> or
  \<open>-ESHUTDOWN\<close>, and the claim is that no error is recorded for it and none reported later.
  The handlers skip the log message for these statuses and record them like any other. A
  probed device whose reader has started a transfer is suspended, which cancels the
  transfer, and resumed: the next read call returns \<open>-EIO\<close>. A device is suspended with a
  write request in flight: the next write call returns \<open>-EIO\<close>. A flush with an inbound
  transfer in flight and no error recorded cancels the transfer and returns \<open>-EIO\<close>.
\<close>

theorem cancelled_transfer_is_reported:
  "run 4096
      \<lparr>interface = True, limit_sem = 8, submitted = [], bulk_in_urb = True,
       bulk_in_flight = [], bulk_in_submits = 0, bulk_in_buffer = [9, 9, 9, 9 :: byte],
       bulk_in_size = 4, bulk_in_filled = 0, bulk_in_copied = 0, errors = 0,
       ongoing_read = False, kref = 1, freed = False, coherent = [], intfdata = True\<rparr>
      [Read 10 10 True False [] [] [], Suspend [], Resume]
     = \<lparr>interface = True, limit_sem = 8, submitted = [],
       bulk_in_urb = True, bulk_in_flight = [], bulk_in_submits = 1,
       bulk_in_buffer = [9, 9, 9, 9 :: byte], bulk_in_size = 4,
       bulk_in_filled = 0, bulk_in_copied = 0, errors = - ENOENT,
       ongoing_read = False, kref = 1, freed = False, coherent = [], intfdata = True\<rparr>
   \<and> ugci_read
      \<lparr>interface = True, limit_sem = 8, submitted = [],
       bulk_in_urb = True, bulk_in_flight = [], bulk_in_submits = 1,
       bulk_in_buffer = [9, 9, 9, 9 :: byte], bulk_in_size = 4,
       bulk_in_filled = 0, bulk_in_copied = 0, errors = - ENOENT,
       ongoing_read = False, kref = 1, freed = False, coherent = [], intfdata = True\<rparr>
      10 10 False False [] [] []
     = (Returned (- EIO), [],
      \<lparr>interface = True, limit_sem = 8, submitted = [],
       bulk_in_urb = True, bulk_in_flight = [], bulk_in_submits = 1,
       bulk_in_buffer = [9, 9, 9, 9 :: byte], bulk_in_size = 4,
       bulk_in_filled = 0, bulk_in_copied = 0, errors = 0,
       ongoing_read = False, kref = 1, freed = False, coherent = [], intfdata = True\<rparr>)
   \<and> snd (ugci_suspend
      \<lparr>interface = True, limit_sem = 7, submitted = [\<lparr>transfer_buffer = [1, 2], transfer_buffer_length = 2\<rparr>],
       bulk_in_urb = True, bulk_in_flight = [], bulk_in_submits = 0,
       bulk_in_buffer = [9, 9, 9, 9 :: byte], bulk_in_size = 4,
       bulk_in_filled = 0, bulk_in_copied = 0, errors = 0,
       ongoing_read = False, kref = 2, freed = False, coherent = [[1, 2]], intfdata = True\<rparr>
      [])
     = \<lparr>interface = True, limit_sem = 8, submitted = [],
       bulk_in_urb = True, bulk_in_flight = [], bulk_in_submits = 0,
       bulk_in_buffer = [9, 9, 9, 9 :: byte], bulk_in_size = 4,
       bulk_in_filled = 0, bulk_in_copied = 0, errors = - ENOENT,
       ongoing_read = False, kref = 2, freed = False, coherent = [], intfdata = True\<rparr>
   \<and> ugci_write 4096
      \<lparr>interface = True, limit_sem = 8, submitted = [],
       bulk_in_urb = True, bulk_in_flight = [], bulk_in_submits = 0,
       bulk_in_buffer = [9, 9, 9, 9 :: byte], bulk_in_size = 4,
       bulk_in_filled = 0, bulk_in_copied = 0, errors = - ENOENT,
       ongoing_read = False, kref = 2, freed = False, coherent = [], intfdata = True\<rparr>
      [3] 1 False False True True 0
     = (Returned (- EIO),
      \<lparr>interface = True, limit_sem = 8, submitted = [],
       bulk_in_urb = True, bulk_in_flight = [], bulk_in_submits = 0,
       bulk_in_buffer = [9, 9, 9, 9 :: byte], bulk_in_size = 4,
       bulk_in_filled = 0, bulk_in_copied = 0, errors = 0,
       ongoing_read = False, kref = 2, freed = False, coherent = [], intfdata = True\<rparr>)
   \<and> fst (ugci_flush
      \<lparr>interface = True, limit_sem = 8, submitted = [],
       bulk_in_urb = True, bulk_in_flight = [4], bulk_in_submits = 1,
       bulk_in_buffer = [9, 9, 9, 9 :: byte], bulk_in_size = 4,
       bulk_in_filled = 0, bulk_in_copied = 0, errors = 0,
       ongoing_read = True, kref = 1, freed = False, coherent = [], intfdata = True\<rparr>
      []) = - EIO
   \<and> errors (ugci_read_bulk_callback
      \<lparr>interface = True, limit_sem = 8, submitted = [],
       bulk_in_urb = True, bulk_in_flight = [4], bulk_in_submits = 1,
       bulk_in_buffer = [9, 9, 9, 9 :: byte], bulk_in_size = 4,
       bulk_in_filled = 0, bulk_in_copied = 0, errors = 0,
       ongoing_read = True, kref = 1, freed = False, coherent = [], intfdata = True\<rparr>
      (- ECONNRESET) 0) = - ECONNRESET
   \<and> errors (ugci_write_bulk_callback
      \<lparr>interface = True, limit_sem = 7, submitted = [\<lparr>transfer_buffer = [1, 2], transfer_buffer_length = 2\<rparr>],
       bulk_in_urb = True, bulk_in_flight = [], bulk_in_submits = 0,
       bulk_in_buffer = [9, 9, 9, 9 :: byte], bulk_in_size = 4,
       bulk_in_filled = 0, bulk_in_copied = 0, errors = 0,
       ongoing_read = False, kref = 2, freed = False, coherent = [[1, 2]], intfdata = True\<rparr>
      \<lparr>transfer_buffer = [1, 2], transfer_buffer_length = 2\<rparr>
      (- ESHUTDOWN)) = - ESHUTDOWN"
  by (simp add: op_defs errno_defs retry_simps)

theorem cancelled_transfer_is_reported_witness:
  "fst (ugci_read
      \<lparr>interface = True, limit_sem = 8, submitted = [],
       bulk_in_urb = True, bulk_in_flight = [], bulk_in_submits = 1,
       bulk_in_buffer = [9, 9, 9, 9 :: byte], bulk_in_size = 4,
       bulk_in_filled = 0, bulk_in_copied = 0, errors = - ENOENT,
       ongoing_read = False, kref = 1, freed = False, coherent = [], intfdata = True\<rparr>
      10 10 False False [] [] []) = Returned (- EIO)"
  using cancelled_transfer_is_reported by simp

text \<open>
  Claim C3. The claim is that a disconnect cancels every request in flight, the inbound
  one too, before it drops its reference. \<open>ugci_disconnect\<close> cancels the anchored write
  requests only: on a device with a write request and the inbound request in flight it
  clears \<open>interface\<close>, cancels the write request and drops the reference, and the inbound
  transfer is still in flight with \<open>ongoing_read\<close> set. \<open>ugci_draw_down\<close> on the same device
  cancels both.
\<close>

theorem disconnect_leaves_inbound_in_flight:
  "ugci_disconnect
      \<lparr>interface = True, limit_sem = 7, submitted = [\<lparr>transfer_buffer = [1, 2], transfer_buffer_length = 2\<rparr>],
       bulk_in_urb = True, bulk_in_flight = [4], bulk_in_submits = 1,
       bulk_in_buffer = [9, 9, 9, 9 :: byte], bulk_in_size = 4,
       bulk_in_filled = 0, bulk_in_copied = 0, errors = 0,
       ongoing_read = True, kref = 2, freed = False, coherent = [[1, 2]], intfdata = True\<rparr>
     = \<lparr>interface = False, limit_sem = 8, submitted = [],
       bulk_in_urb = True, bulk_in_flight = [4], bulk_in_submits = 1,
       bulk_in_buffer = [9, 9, 9, 9 :: byte], bulk_in_size = 4,
       bulk_in_filled = 0, bulk_in_copied = 0, errors = - ENOENT,
       ongoing_read = True, kref = 1, freed = False, coherent = [], intfdata = False\<rparr>
   \<and> ugci_draw_down
      \<lparr>interface = True, limit_sem = 7, submitted = [\<lparr>transfer_buffer = [1, 2], transfer_buffer_length = 2\<rparr>],
       bulk_in_urb = True, bulk_in_flight = [4], bulk_in_submits = 1,
       bulk_in_buffer = [9, 9, 9, 9 :: byte], bulk_in_size = 4,
       bulk_in_filled = 0, bulk_in_copied = 0, errors = 0,
       ongoing_read = True, kref = 2, freed = False, coherent = [[1, 2]], intfdata = True\<rparr>
      []
     = \<lparr>interface = True, limit_sem = 8, submitted = [],
       bulk_in_urb = True, bulk_in_flight = [], bulk_in_submits = 1,
       bulk_in_buffer = [9, 9, 9, 9 :: byte], bulk_in_size = 4,
       bulk_in_filled = 0, bulk_in_copied = 0, errors = - ENOENT,
       ongoing_read = False, kref = 2, freed = False, coherent = [], intfdata = True\<rparr>"
  by (simp add: op_defs errno_defs)

theorem disconnect_leaves_inbound_in_flight_witness:
  "bulk_in_flight (ugci_disconnect
      \<lparr>interface = True, limit_sem = 7, submitted = [\<lparr>transfer_buffer = [1, 2], transfer_buffer_length = 2\<rparr>],
       bulk_in_urb = True, bulk_in_flight = [4], bulk_in_submits = 1,
       bulk_in_buffer = [9, 9, 9, 9 :: byte], bulk_in_size = 4,
       bulk_in_filled = 0, bulk_in_copied = 0, errors = 0,
       ongoing_read = True, kref = 2, freed = False, coherent = [[1, 2]], intfdata = True\<rparr>) = [4]
   \<and> ongoing_read (ugci_disconnect
      \<lparr>interface = True, limit_sem = 7, submitted = [\<lparr>transfer_buffer = [1, 2], transfer_buffer_length = 2\<rparr>],
       bulk_in_urb = True, bulk_in_flight = [4], bulk_in_submits = 1,
       bulk_in_buffer = [9, 9, 9, 9 :: byte], bulk_in_size = 4,
       bulk_in_filled = 0, bulk_in_copied = 0, errors = 0,
       ongoing_read = True, kref = 2, freed = False, coherent = [[1, 2]], intfdata = True\<rparr>)"
  using disconnect_leaves_inbound_in_flight by simp

end
